theory Spec2Isabelle
  imports
    Main
    "HOL-Library.Char_ord"
    "HOL-Library.List_Lexorder"
    "HOL-Library.Multiset"
    "HOL-Library.AList"
begin

section \<open>The SubsCenter subtitle provider\<close>

text \<open>
  A shallow embedding of \<^verbatim>\<open>lib/subliminal/providers/subscenter.py\<close>.
  Python strings and byte strings are \<^typ>\<open>string\<close>, compared as Python compares them
  (lexicographically, character by character, a proper prefix being smaller). Python's
  unbounded integers are \<^typ>\<open>int\<close>. An exception is a value of type \<open>error\<close>; a
  function that can raise returns \<open>error + 'a\<close> with the exception on the left.
\<close>

subsection \<open>Exceptions\<close>

datatype error =
    ConfigurationError string
  | AuthenticationError string
  | ProviderError string
  | ValueError string
  | HTTPError nat
  | RequestException
  | KeyError string
  | IndexError
  | AttributeError string
  | BadZipFile
  | LanguageReverseError string

subsection \<open>\<^verbatim>\<open>bisect.insort_left\<close>\<close>

text \<open>
  The standard library's binary search, with its loop
  \<^verbatim>\<open>while lo < hi: mid = (lo+hi)//2; if a[mid] < x: lo = mid+1 else: hi = mid\<close>
  as a recursion on the width of the interval, followed by \<^verbatim>\<open>a.insert(lo, x)\<close>.
\<close>

function bisect_left :: "'a::linorder list \<Rightarrow> 'a \<Rightarrow> nat \<Rightarrow> nat \<Rightarrow> nat" where
  "bisect_left a x lo hi =
     (if lo < hi then
        (let mid = (lo + hi) div 2 in
         if a ! mid < x then bisect_left a x (mid + 1) hi
         else bisect_left a x lo mid)
      else lo)"
  by pat_completeness auto
termination
  by (relation "measure (\<lambda>(a, x, lo, hi). hi - lo)") auto

declare bisect_left.simps [simp del]

definition list_insert :: "'a list \<Rightarrow> nat \<Rightarrow> 'a \<Rightarrow> 'a list" where
  "list_insert a i x = take i a @ x # drop i a"

definition insort_left :: "'a::linorder list \<Rightarrow> 'a \<Rightarrow> 'a list" where
  "insort_left a x = list_insert a (bisect_left a x 0 (length a)) x"

subsection \<open>The raw listing and the subtitle record\<close>

text \<open>
  Python's truth value of a JSON scalar, as \<^verbatim>\<open>bool(subtitle_item['hearing_impaired'])\<close>
  computes it.
\<close>

datatype json = JNull | JBool bool | JInt int | JString string

fun bool_py :: "json \<Rightarrow> bool" where
  "bool_py JNull = False"
| "bool_py (JBool b) = b"
| "bool_py (JInt i) = (i \<noteq> 0)"
| "bool_py (JString s) = (s \<noteq> [])"

text \<open>
  A leaf of the listing: the five keys the loop reads. The identifier and the download
  count are integers (the loop logs the former with \<^verbatim>\<open>%d\<close> and adds the latter).
\<close>

record subtitle_item =
  item_hearing_impaired :: json
  item_id :: int
  item_key :: string
  item_downloaded :: int
  item_subtitle_version :: string

text \<open>
  The listing is a JSON object of four levels. Each level is kept as the list of its
  (key, value) pairs in the order in which the dictionary is iterated.
\<close>

type_synonym subtitles_data = "(string \<times> subtitle_item) list"
type_synonym quality_data = "(string \<times> subtitles_data) list"
type_synonym language_data = "(string \<times> quality_data) list"
type_synonym listing = "(string \<times> language_data) list"

text \<open>
  A language value is identified by its two-letter code; \<^verbatim>\<open>Language.fromalpha2\<close> raises
  on a code that is not in the table of known codes, which is a parameter here.
\<close>

datatype language = Language (alpha2: string)

definition fromalpha2 :: "string list \<Rightarrow> string \<Rightarrow> error + language" where
  "fromalpha2 known code =
     (if code \<in> set known then Inr (Language code) else Inl (LanguageReverseError code))"

record SubsCenterSubtitle =
  language :: language
  hearing_impaired :: bool
  page_link :: string
  series :: "string option"
  season :: "int option"
  episode :: "int option"
  title :: "string option"
  subtitle_id :: int
  subtitle_key :: string
  downloaded :: int
  releases :: "string list"
  content :: "string option"

text \<open>The arguments of \<^verbatim>\<open>query\<close> that every record of one query shares.\<close>

record query_context =
  ctx_page_link :: string
  ctx_series :: "string option"
  ctx_season :: "int option"
  ctx_episode :: "int option"
  ctx_title :: "string option"

subsection \<open>The flattening loop of \<^verbatim>\<open>query\<close>\<close>

text \<open>
  The four nested \<^verbatim>\<open>for\<close> loops visit the leaves in this order; only the language code
  of the outermost level and the leaf itself are used by the body.
\<close>

definition leaves :: "listing \<Rightarrow> (string \<times> subtitle_item) list" where
  "leaves results =
     concat (map (\<lambda>(language_code, language_data).
       concat (map (\<lambda>(group, quality_data).
         concat (map (\<lambda>(quality, subtitles_data).
           map (\<lambda>(name, subtitle_item). (language_code, subtitle_item)) subtitles_data)
         quality_data))
       language_data))
     results)"

text \<open>
  The dictionary \<^verbatim>\<open>subtitles\<close> is an association list in insertion order. The body of
  the loop: resolve the language, read the item, then either merge into the record
  already stored under the id or store a new record.
\<close>

type_synonym subtitles = "(int \<times> SubsCenterSubtitle) list"

definition new_subtitle ::
  "query_context \<Rightarrow> language \<Rightarrow> subtitle_item \<Rightarrow> SubsCenterSubtitle" where
  "new_subtitle ctx lang subtitle_item =
     \<lparr> language = lang,
       hearing_impaired = bool_py (item_hearing_impaired subtitle_item),
       page_link = ctx_page_link ctx,
       series = ctx_series ctx,
       season = ctx_season ctx,
       episode = ctx_episode ctx,
       title = ctx_title ctx,
       subtitle_id = item_id subtitle_item,
       subtitle_key = item_key subtitle_item,
       downloaded = item_downloaded subtitle_item,
       releases = [item_subtitle_version subtitle_item],
       content = None \<rparr>"

definition add_release :: "subtitle_item \<Rightarrow> SubsCenterSubtitle \<Rightarrow> SubsCenterSubtitle" where
  "add_release subtitle_item s =
     s \<lparr> releases := insort_left (releases s) (item_subtitle_version subtitle_item),
         downloaded := downloaded s + item_downloaded subtitle_item \<rparr>"

definition loop_body ::
  "string list \<Rightarrow> query_context \<Rightarrow> subtitles \<Rightarrow> string \<times> subtitle_item \<Rightarrow> error + subtitles" where
  "loop_body known ctx subtitles leaf =
     (case fromalpha2 known (fst leaf) of
        Inl e \<Rightarrow> Inl e
      | Inr lang \<Rightarrow>
          (case map_of subtitles (item_id (snd leaf)) of
             Some s \<Rightarrow>
               Inr (AList.update (item_id (snd leaf)) (add_release (snd leaf) s) subtitles)
           | None \<Rightarrow>
               Inr (AList.update (item_id (snd leaf)) (new_subtitle ctx lang (snd leaf)) subtitles)))"

fun flatten_loop ::
  "string list \<Rightarrow> query_context \<Rightarrow> subtitles \<Rightarrow> (string \<times> subtitle_item) list \<Rightarrow> error + subtitles" where
  "flatten_loop known ctx subtitles [] = Inr subtitles"
| "flatten_loop known ctx subtitles (leaf # rest) =
     (case loop_body known ctx subtitles leaf of
        Inl e \<Rightarrow> Inl e
      | Inr subtitles' \<Rightarrow> flatten_loop known ctx subtitles' rest)"

definition flatten :: "string list \<Rightarrow> query_context \<Rightarrow> listing \<Rightarrow> error + SubsCenterSubtitle list" where
  "flatten known ctx results =
     (case flatten_loop known ctx [] (leaves results) of
        Inl e \<Rightarrow> Inl e
      | Inr subtitles \<Rightarrow> Inr (map snd subtitles))"

text \<open>
  What the loop is expected to leave under an id, from the leaves that carry this id in
  the order of their arrival: the record built from the first of them, with the sum of all
  download counts and the sorted sequence of all release names.
\<close>

definition fragments_of ::
  "int \<Rightarrow> (string \<times> subtitle_item) list \<Rightarrow> (string \<times> subtitle_item) list" where
  "fragments_of sid fs = filter (\<lambda>leaf. item_id (snd leaf) = sid) fs"

definition merged ::
  "query_context \<Rightarrow> (string \<times> subtitle_item) list \<Rightarrow> SubsCenterSubtitle option" where
  "merged ctx frs =
     (case frs of
        [] \<Rightarrow> None
      | leaf # others \<Rightarrow>
          Some ((new_subtitle ctx (Language (fst leaf)) (snd leaf))
            \<lparr> downloaded := sum_list (map (item_downloaded \<circ> snd) frs),
              releases := sort (map (item_subtitle_version \<circ> snd) frs) \<rparr>))"

subsection \<open>The transport session\<close>

text \<open>
  The transport, the HTML parser, the JSON decoder and the archive reader are outside the
  provider. A request is the call made on the session; the transport answers it with a
  response or raises. The body of a response is kept as what the matching decoder makes of
  it: the anchors selected by \<^verbatim>\<open>#processes div.generalWindowTop a\<close> with their
  \<^verbatim>\<open>href\<close> attribute when they have one, the decoded listing, or the entries of the
  archive (name and bytes, in the archive's order).
\<close>

datatype call =
    GET string "(string \<times> string) list" "(string \<times> string) list"
  | POST string "(string \<times> string) list"

datatype body =
    Html "string option list"
  | Json listing
  | Zip "(string \<times> string) list"
  | Opaque

record response =
  status_code :: nat
  location :: "string option"
  set_cookies :: "(string \<times> string) list"
  body :: body

type_synonym transport = "call \<Rightarrow> error + response"

definition raise_for_status :: "response \<Rightarrow> error + unit" where
  "raise_for_status r =
     (if 400 \<le> status_code r \<and> status_code r < 600 then Inl (HTTPError (status_code r))
      else Inr ())"

definition is_redirect :: "response \<Rightarrow> bool" where
  "is_redirect r \<longleftrightarrow>
     location r \<noteq> None \<and> status_code r \<in> {301, 302, 303, 307, 308}"

definition json_loads :: "response \<Rightarrow> error + listing" where
  "json_loads r =
     (case body r of
        Json results \<Rightarrow> Inr results
      | _ \<Rightarrow> Inl (ValueError ''No JSON object could be decoded''))"

definition select_suggestions :: "response \<Rightarrow> string option list" where
  "select_suggestions r = (case body r of Html anchors \<Rightarrow> anchors | _ \<Rightarrow> [])"

definition ZipFile :: "response \<Rightarrow> error + (string \<times> string) list" where
  "ZipFile r = (case body r of Zip entries \<Rightarrow> Inr entries | _ \<Rightarrow> Inl BadZipFile)"

definition namelist :: "(string \<times> string) list \<Rightarrow> string list" where
  "namelist zf = map fst zf"

text \<open>Reading by name yields the last entry of that name, as \<^verbatim>\<open>ZipFile.read\<close> does.\<close>

definition zf_read :: "(string \<times> string) list \<Rightarrow> string \<Rightarrow> error + string" where
  "zf_read zf n = (case map_of (rev zf) n of None \<Rightarrow> Inl (KeyError n) | Some bytes \<Rightarrow> Inr bytes)"

text \<open>The session keeps its cookies, whether it was closed, and the calls made through it.\<close>

record session =
  headers :: "(string \<times> string) list"
  cookies :: "(string \<times> string) list"
  closed :: bool
  calls :: "call list"

record provider =
  username :: "string option"
  password :: "string option"
  logged_in :: bool
  session :: "session option"

definition server :: string where
  "server = ''http://subscenter.cinemast.com/he/''"

definition request :: "transport \<Rightarrow> call \<Rightarrow> provider \<Rightarrow> (error + response) \<times> provider" where
  "request net c p =
     (case session p of
        None \<Rightarrow> (Inl (AttributeError ''session''), p)
      | Some s \<Rightarrow>
          (case net c of
             Inl e \<Rightarrow> (Inl e, p \<lparr> session := Some (s \<lparr> calls := calls s @ [c] \<rparr>) \<rparr>)
           | Inr r \<Rightarrow>
               (Inr r, p \<lparr> session := Some (s \<lparr> cookies := set_cookies r @ cookies s,
                                                   calls := calls s @ [c] \<rparr>) \<rparr>)))"

definition calls_made :: "provider \<Rightarrow> call list" where
  "calls_made p = (case session p of None \<Rightarrow> [] | Some s \<Rightarrow> calls s)"

definition session_cookies :: "provider \<Rightarrow> (string \<times> string) list" where
  "session_cookies p = (case session p of None \<Rightarrow> [] | Some s \<Rightarrow> cookies s)"

subsection \<open>Construction, \<^verbatim>\<open>initialize\<close> and \<^verbatim>\<open>terminate\<close>\<close>

definition SubsCenterProvider :: "string option \<Rightarrow> string option \<Rightarrow> error + provider" where
  "SubsCenterProvider user pass =
     (if user \<noteq> None \<and> pass = None \<or> user = None \<and> pass \<noteq> None
      then Inl (ConfigurationError ''Username and password must be specified'')
      else Inr \<lparr> username = user, password = pass, logged_in = False, session = None \<rparr>)"

text \<open>The package's version string is a parameter.\<close>

definition initialize :: "transport \<Rightarrow> string \<Rightarrow> provider \<Rightarrow> (error + unit) \<times> provider" where
  "initialize net short_version p0 =
     (let p = p0 \<lparr> session := Some \<lparr> headers = [(''User-Agent'', ''Subliminal/'' @ short_version)],
                                        cookies = [], closed = False, calls = [] \<rparr> \<rparr>
      in case (username p, password p) of
           (Some user, Some pass) \<Rightarrow>
             (let url = server @ ''subscenter/accounts/login/'' in
              case request net (GET url [] []) p of
                (Inl e, p1) \<Rightarrow> (Inl e, p1)
              | (Inr r0, p1) \<Rightarrow>
                  (case map_of (session_cookies p1) ''csrftoken'' of
                     None \<Rightarrow> (Inl (KeyError ''csrftoken''), p1)
                   | Some csrf_token \<Rightarrow>
                       (case request net
                               (POST url [(''username'', user), (''password'', pass),
                                          (''csrfmiddlewaretoken'', csrf_token)]) p1 of
                          (Inl e, p2) \<Rightarrow> (Inl e, p2)
                        | (Inr r, p2) \<Rightarrow>
                            if status_code r \<noteq> 302 then (Inl (AuthenticationError user), p2)
                            else (Inr (), p2 \<lparr> logged_in := True \<rparr>))))
         | _ \<Rightarrow> (Inr (), p))"

definition logout :: "transport \<Rightarrow> provider \<Rightarrow> (error + unit) \<times> provider" where
  "logout net p =
     (if logged_in p then
        (case request net (GET (server @ ''subscenter/accounts/logout/'') [] []) p of
           (Inl e, p1) \<Rightarrow> (Inl e, p1)
         | (Inr r, p1) \<Rightarrow>
             (case raise_for_status r of
                Inl e \<Rightarrow> (Inl e, p1)
              | Inr u \<Rightarrow> (Inr (), p1 \<lparr> logged_in := False \<rparr>)))
      else (Inr (), p))"

definition terminate :: "transport \<Rightarrow> provider \<Rightarrow> (error + unit) \<times> provider" where
  "terminate net p =
     (case logout net p of
        (Inl e, p1) \<Rightarrow> (Inl e, p1)
      | (Inr u, p1) \<Rightarrow>
          (case session p1 of
             None \<Rightarrow> (Inl (AttributeError ''session''), p1)
           | Some s \<Rightarrow> (Inr (), p1 \<lparr> session := Some (s \<lparr> closed := True \<rparr>) \<rparr>)))"

definition session_open :: "provider \<Rightarrow> bool" where
  "session_open p = (case session p of None \<Rightarrow> False | Some s \<Rightarrow> \<not> closed s)"

subsection \<open>\<^verbatim>\<open>_search_url_title\<close>\<close>

text \<open>\<^verbatim>\<open>str.split\<close> on a one-character separator, and indexing from the end.\<close>

fun split :: "char \<Rightarrow> string \<Rightarrow> string list" where
  "split sep [] = [[]]"
| "split sep (c # cs) =
     (if c = sep then [] # split sep cs
      else (case split sep cs of
              part # parts \<Rightarrow> (c # part) # parts
            | [] \<Rightarrow> [[c]]))"

definition from_end :: "'a list \<Rightarrow> nat \<Rightarrow> error + 'a" where
  "from_end xs k =
     (if 0 < k \<and> k \<le> length xs then Inr (xs ! (length xs - k)) else Inl IndexError)"

text \<open>
  The test \<^verbatim>\<open>if parts[-3] == kind: return parts[-2]\<close> of both branches: the slug when
  the kind matches, nothing when it does not.
\<close>

definition check_kind :: "string list \<Rightarrow> string \<Rightarrow> error + string option" where
  "check_kind parts kind =
     (case from_end parts 3 of
        Inl e \<Rightarrow> Inl e
      | Inr k \<Rightarrow>
          if k = kind then
            (case from_end parts 2 of Inl e \<Rightarrow> Inl e | Inr slug \<Rightarrow> Inr (Some slug))
          else Inr None)"

fun scan_suggestions :: "string \<Rightarrow> string option list \<Rightarrow> error + string option" where
  "scan_suggestions kind [] = Inr None"
| "scan_suggestions kind (suggestion # rest) =
     (case suggestion of
        None \<Rightarrow> Inl (KeyError ''href'')
      | Some href \<Rightarrow>
          (case check_kind (split CHR ''/'' href) kind of
             Inl e \<Rightarrow> Inl e
           | Inr (Some slug) \<Rightarrow> Inr (Some slug)
           | Inr None \<Rightarrow> scan_suggestions kind rest))"

text \<open>
  What the function does with the response of the search, and the function itself (its
  body, as it runs when the cache has no entry for the arguments).
\<close>

definition url_title_of :: "response \<Rightarrow> string \<Rightarrow> error + string option" where
  "url_title_of r kind =
     (if is_redirect r then
        (case location r of
           None \<Rightarrow> Inl (KeyError ''Location'')
         | Some loc \<Rightarrow> check_kind (split CHR ''/'' loc) kind)
      else scan_suggestions kind (select_suggestions r))"

definition search_url_title ::
  "transport \<Rightarrow> string \<Rightarrow> string \<Rightarrow> provider \<Rightarrow> (error + string option) \<times> provider" where
  "search_url_title net title_arg kind p =
     (case request net (GET (server @ ''subtitle/search/'') [(''q'', title_arg)] []) p of
        (Inl e, p1) \<Rightarrow> (Inl e, p1)
      | (Inr r, p1) \<Rightarrow>
          (case raise_for_status r of
             Inl e \<Rightarrow> (Inl e, p1)
           | Inr u \<Rightarrow> (url_title_of r kind, p1)))"

subsection \<open>\<^verbatim>\<open>query\<close> and \<^verbatim>\<open>list_subtitles\<close>\<close>

text \<open>
  The text \<^verbatim>\<open>'{}'.format\<close> gives for an integer (its decimal digits) and for a slug
  that may be \<^verbatim>\<open>None\<close>.
\<close>

fun str_nat :: "nat \<Rightarrow> string" where
  "str_nat n =
     (if n < 10 then [''0123456789'' ! n]
      else str_nat (n div 10) @ [''0123456789'' ! (n mod 10)])"

declare str_nat.simps [simp del]

definition str_int :: "int \<Rightarrow> string" where
  "str_int i = (if i < 0 then CHR ''-'' # str_nat (nat (- i)) else str_nat (nat i))"

definition str_slug :: "string option \<Rightarrow> string" where
  "str_slug slug = (case slug of None \<Rightarrow> ''None'' | Some u \<Rightarrow> u)"

text \<open>
  The two tests of \<^verbatim>\<open>query\<close>, with Python's truth values: \<^verbatim>\<open>None\<close>, the empty
  string and the number zero are false.
\<close>

fun episode_form :: "string option \<Rightarrow> int option \<Rightarrow> int option \<Rightarrow> (string \<times> int \<times> int) option" where
  "episode_form (Some s) (Some n) (Some e) =
     (if s \<noteq> [] \<and> n \<noteq> 0 \<and> e \<noteq> 0 then Some (s, n, e) else None)"
| "episode_form _ _ _ = None"

fun movie_form :: "string option \<Rightarrow> string option" where
  "movie_form (Some t) = (if t \<noteq> [] then Some t else None)"
| "movie_form None = None"

text \<open>The first part of \<^verbatim>\<open>query\<close>: the listing's address and the page link.\<close>

definition query_urls ::
  "transport \<Rightarrow> string option \<Rightarrow> int option \<Rightarrow> int option \<Rightarrow> string option \<Rightarrow> provider \<Rightarrow>
   (error + string \<times> string) \<times> provider" where
  "query_urls net series_arg season_arg episode_arg title_arg p =
     (case episode_form series_arg season_arg episode_arg of
        Some (s, n, e) \<Rightarrow>
          (case search_url_title net s ''series'' p of
             (Inl err, p1) \<Rightarrow> (Inl err, p1)
           | (Inr url_series, p1) \<Rightarrow>
               (Inr (server @ ''cinemast/data/series/sb/'' @ str_slug url_series @ ''/''
                       @ str_int n @ ''/'' @ str_int e @ ''/'',
                     server @ ''subtitle/series/'' @ str_slug url_series @ ''/''
                       @ str_int n @ ''/'' @ str_int e @ ''/''), p1))
      | None \<Rightarrow>
          (case movie_form title_arg of
             Some t \<Rightarrow>
               (case search_url_title net t ''movie'' p of
                  (Inl err, p1) \<Rightarrow> (Inl err, p1)
                | (Inr url_title, p1) \<Rightarrow>
                    (Inr (server @ ''cinemast/data/movie/sb/'' @ str_slug url_title @ ''/'',
                          server @ ''subtitle/movie/'' @ str_slug url_title @ ''/''), p1))
           | None \<Rightarrow> (Inl (ValueError ''One or more parameters are missing''), p)))"

definition query ::
  "transport \<Rightarrow> string list \<Rightarrow> string option \<Rightarrow> int option \<Rightarrow> int option \<Rightarrow> string option \<Rightarrow>
   provider \<Rightarrow> (error + SubsCenterSubtitle list) \<times> provider" where
  "query net known series_arg season_arg episode_arg title_arg p =
     (case query_urls net series_arg season_arg episode_arg title_arg p of
        (Inl err, p1) \<Rightarrow> (Inl err, p1)
      | (Inr (url, link), p1) \<Rightarrow>
          (case request net (GET url [] []) p1 of
             (Inl err, p2) \<Rightarrow> (Inl err, p2)
           | (Inr r, p2) \<Rightarrow>
               (case raise_for_status r of
                  Inl err \<Rightarrow> (Inl err, p2)
                | Inr u \<Rightarrow>
                    (case json_loads r of
                       Inl err \<Rightarrow> (Inl err, p2)
                     | Inr results \<Rightarrow>
                         (flatten known
                            \<lparr> ctx_page_link = link, ctx_series = series_arg,
                              ctx_season = season_arg, ctx_episode = episode_arg,
                              ctx_title = title_arg \<rparr> results, p2)))))"

datatype video =
    Episode "string option" "string option" "int option" "int option"
  | Movie "string option"

fun list_subtitles ::
  "transport \<Rightarrow> string list \<Rightarrow> video \<Rightarrow> language set \<Rightarrow> provider \<Rightarrow>
   (error + SubsCenterSubtitle list) \<times> provider" where
  "list_subtitles net known (Episode video_title video_series video_season video_episode) languages p =
     (case query net known video_series video_season video_episode video_title p of
        (Inl err, p1) \<Rightarrow> (Inl err, p1)
      | (Inr found, p1) \<Rightarrow> (Inr (filter (\<lambda>s. language s \<in> languages) found), p1))"
| "list_subtitles net known (Movie video_title) languages p =
     (case query net known None None None video_title p of
        (Inl err, p1) \<Rightarrow> (Inl err, p1)
      | (Inr found, p1) \<Rightarrow> (Inr (filter (\<lambda>s. language s \<in> languages) found), p1))"

subsection \<open>\<^verbatim>\<open>download_subtitle\<close>\<close>

definition endswith :: "string \<Rightarrow> string \<Rightarrow> bool" where
  "endswith n suffix \<longleftrightarrow>
     length suffix \<le> length n \<and> drop (length n - length suffix) n = suffix"

text \<open>
  The part of \<^verbatim>\<open>download_subtitle\<close> inside the \<^verbatim>\<open>with\<close> block: from the opened
  archive to the bytes assigned to \<^verbatim>\<open>subtitle.content\<close>. The line-ending repair
  \<^verbatim>\<open>fix_line_ending\<close> of the subtitle module is a parameter.
\<close>

definition unzip_single :: "(string \<Rightarrow> string) \<Rightarrow> (string \<times> string) list \<Rightarrow> error + string" where
  "unzip_single fix_line_ending zf =
     (let names = filter (\<lambda>n. \<not> endswith n ''.txt'') (namelist zf) in
      if length names > 1 then Inl (ProviderError ''More than one file to unzip'')
      else
        (case names of
           [] \<Rightarrow> Inl IndexError
         | n # ns \<Rightarrow>
             (case zf_read zf n of
                Inl e \<Rightarrow> Inl e
              | Inr bytes \<Rightarrow> Inr (fix_line_ending bytes))))"

definition download_subtitle ::
  "transport \<Rightarrow> (string \<Rightarrow> string) \<Rightarrow> SubsCenterSubtitle \<Rightarrow> provider \<Rightarrow>
   (error + unit) \<times> SubsCenterSubtitle \<times> provider" where
  "download_subtitle net fix_line_ending subtitle p =
     (let url = server @ ''subtitle/download/'' @ alpha2 (language subtitle) @ ''/''
                  @ str_int (subtitle_id subtitle) @ ''/''
      in case releases subtitle of
           [] \<Rightarrow> (Inl IndexError, subtitle, p)
         | v # vs \<Rightarrow>
             (case request net
                     (GET url [(''v'', v), (''key'', subtitle_key subtitle)]
                          [(''Referer'', page_link subtitle)]) p of
                (Inl e, p1) \<Rightarrow> (Inl e, subtitle, p1)
              | (Inr r, p1) \<Rightarrow>
                  (case raise_for_status r of
                     Inl e \<Rightarrow> (Inl e, subtitle, p1)
                   | Inr u \<Rightarrow>
                       (case ZipFile r of
                          Inl e \<Rightarrow> (Inl e, subtitle, p1)
                        | Inr zf \<Rightarrow>
                            (case unzip_single fix_line_ending zf of
                               Inl e \<Rightarrow> (Inl e, subtitle, p1)
                             | Inr bytes \<Rightarrow>
                                 (Inr (), subtitle \<lparr> content := Some bytes \<rparr>, p1))))))"

subsection \<open>Example inputs\<close>

text \<open>
  A listing for the first episode of a series with two leaves of id 42, in two quality
  groups, and one in which both leaves carry the same release name.
\<close>

definition item42a :: subtitle_item where
  "item42a = \<lparr> item_hearing_impaired = JInt 0, item_id = 42, item_key = ''k42'',
               item_downloaded = 3, item_subtitle_version = ''Group1'' \<rparr>"

definition item42b :: subtitle_item where
  "item42b = \<lparr> item_hearing_impaired = JInt 0, item_id = 42, item_key = ''k42'',
               item_downloaded = 5, item_subtitle_version = ''Group2'' \<rparr>"

definition ctx_bb :: query_context where
  "ctx_bb = \<lparr> ctx_page_link = ''http://subscenter.cinemast.com/he/subtitle/series/breaking-bad/1/1/'',
              ctx_series = Some ''Breaking Bad'', ctx_season = Some 1, ctx_episode = Some 1,
              ctx_title = None \<rparr>"

definition listing42 :: listing where
  "listing42 = [(''he'', [(''g'', [(''720p'', [(''1'', item42a)]), (''1080p'', [(''2'', item42b)])])])]"

definition listing_dup :: listing where
  "listing_dup = [(''he'', [(''g'', [(''720p'', [(''1'', item42a)]), (''1080p'', [(''2'', item42a)])])])]"


definition s42 :: SubsCenterSubtitle where
  "s42 = \<lparr> language = Language ''he'', hearing_impaired = False,
           page_link = ''http://subscenter.cinemast.com/he/subtitle/series/breaking-bad/1/1/'',
           series = Some ''Breaking Bad'', season = Some 1, episode = Some 1, title = None,
           subtitle_id = 42, subtitle_key = ''k42'', downloaded = 8,
           releases = [''Group1'', ''Group2''], content = None \<rparr>"

definition s_dup :: SubsCenterSubtitle where
  "s_dup = \<lparr> language = Language ''he'', hearing_impaired = False,
           page_link = ''http://subscenter.cinemast.com/he/subtitle/series/breaking-bad/1/1/'',
           series = Some ''Breaking Bad'', season = Some 1, episode = Some 1, title = None,
           subtitle_id = 42, subtitle_key = ''k42'', downloaded = 6,
           releases = [''Group1'', ''Group1''], content = None \<rparr>"


text \<open>
  A listing in which the two leaves of id 7 sit under different language codes and differ
  in key and in the hearing-impaired flag, the same listing with its languages in the
  other order, and the first listing with its quality groups in the other order.
\<close>

definition item7he :: subtitle_item where
  "item7he = \<lparr> item_hearing_impaired = JInt 0, item_id = 7, item_key = ''ka'',
               item_downloaded = 1, item_subtitle_version = ''GroupA'' \<rparr>"

definition item7en :: subtitle_item where
  "item7en = \<lparr> item_hearing_impaired = JInt 1, item_id = 7, item_key = ''kb'',
               item_downloaded = 2, item_subtitle_version = ''GroupB'' \<rparr>"

definition listing_he_en :: listing where
  "listing_he_en = [(''he'', [(''g'', [(''720p'', [(''1'', item7he)])])]),
                    (''en'', [(''g'', [(''720p'', [(''1'', item7en)])])])]"

definition listing_en_he :: listing where
  "listing_en_he = [(''en'', [(''g'', [(''720p'', [(''1'', item7en)])])]),
                    (''he'', [(''g'', [(''720p'', [(''1'', item7he)])])])]"

definition s7he :: SubsCenterSubtitle where
  "s7he = \<lparr> language = Language ''he'', hearing_impaired = False,
           page_link = ''http://subscenter.cinemast.com/he/subtitle/series/breaking-bad/1/1/'',
           series = Some ''Breaking Bad'', season = Some 1, episode = Some 1, title = None,
           subtitle_id = 7, subtitle_key = ''ka'', downloaded = 3,
           releases = [''GroupA'', ''GroupB''], content = None \<rparr>"

definition s7en :: SubsCenterSubtitle where
  "s7en = \<lparr> language = Language ''en'', hearing_impaired = True,
           page_link = ''http://subscenter.cinemast.com/he/subtitle/series/breaking-bad/1/1/'',
           series = Some ''Breaking Bad'', season = Some 1, episode = Some 1, title = None,
           subtitle_id = 7, subtitle_key = ''kb'', downloaded = 3,
           releases = [''GroupA'', ''GroupB''], content = None \<rparr>"

definition listing42r :: listing where
  "listing42r = [(''he'', [(''g'', [(''1080p'', [(''2'', item42b)]), (''720p'', [(''1'', item42a)])])])]"

text \<open>
  The third and the second component from the end of a path split at its slashes: the kind
  segment and the slug of a catalogue address.
\<close>

definition kind_segment :: "string \<Rightarrow> string" where
  "kind_segment path = split CHR ''/'' path ! (length (split CHR ''/'' path) - 3)"

definition slug_segment :: "string \<Rightarrow> string" where
  "slug_segment path = split CHR ''/'' path ! (length (split CHR ''/'' path) - 2)"

text \<open>
  The call \<^verbatim>\<open>download_subtitle\<close> makes for a subtitle whose first release is \<open>v\<close>, and the
  names that remain in an archive once those ending in \<^verbatim>\<open>.txt\<close> are left out.
\<close>

definition download_call :: "SubsCenterSubtitle \<Rightarrow> string \<Rightarrow> call" where
  "download_call subtitle v =
     GET (server @ ''subtitle/download/'' @ alpha2 (language subtitle) @ ''/''
            @ str_int (subtitle_id subtitle) @ ''/'')
         [(''v'', v), (''key'', subtitle_key subtitle)]
         [(''Referer'', page_link subtitle)]"

definition candidates :: "(string \<times> string) list \<Rightarrow> string list" where
  "candidates zf = filter (\<lambda>n. \<not> endswith n ''.txt'') (namelist zf)"

text \<open>
  A provider without credentials whose session is open, a redirecting answer to a search,
  a page of suggestions, and three archives: one subtitle beside a readme, two subtitles,
  and text files only.
\<close>

definition p_anon :: provider where
  "p_anon = \<lparr> username = None, password = None, logged_in = False,
              session = Some \<lparr> headers = [(''User-Agent'', ''Subliminal/2.0'')], cookies = [],
                               closed = False, calls = [] \<rparr> \<rparr>"

definition r_redirect :: response where
  "r_redirect = \<lparr> status_code = 302, location = Some ''/he/subtitle/series/breaking-bad/'',
                  set_cookies = [], body = Opaque \<rparr>"

definition r_suggestions :: response where
  "r_suggestions = \<lparr> status_code = 200, location = None, set_cookies = [],
                     body = Html [Some ''/he/subtitle/movie/breaking-bad-the-movie/'',
                                  Some ''/he/subtitle/series/breaking-bad/'',
                                  Some ''/he/subtitle/series/breaking-bad-2/''] \<rparr>"

text \<open>
  A page of suggestions whose first link is a bare fragment and whose second link is the
  series page of a show.
\<close>

definition r_short_href :: response where
  "r_short_href = \<lparr> status_code = 200, location = None, set_cookies = [],
                    body = Html [Some ''#'', Some ''/he/subtitle/series/x/''] \<rparr>"

definition r_zip_one :: response where
  "r_zip_one = \<lparr> status_code = 200, location = None, set_cookies = [],
                 body = Zip [(''readme.txt'', ''visit us''), (''episode.srt'', ''1 hello'')] \<rparr>"

definition r_zip_two :: response where
  "r_zip_two = \<lparr> status_code = 200, location = None, set_cookies = [],
                 body = Zip [(''a.srt'', ''1 hello''), (''b.srt'', ''1 shalom'')] \<rparr>"

definition r_zip_txt :: response where
  "r_zip_txt = \<lparr> status_code = 200, location = None, set_cookies = [],
                 body = Zip [(''readme.txt'', ''visit us''), (''notes.txt'', ''nothing'')] \<rparr>"

text \<open>
  A provider with credentials before \<^verbatim>\<open>initialize\<close>, a site that answers every call with
  its login page (status 200 and a CSRF cookie), and a site that redirects a search to
  the series page of one show and serves the listing of its first episode.
\<close>

definition p_user :: provider where
  "p_user = \<lparr> username = Some ''user'', password = Some ''secret'', logged_in = False,
              session = None \<rparr>"

definition r_login_page :: response where
  "r_login_page = \<lparr> status_code = 200, location = None,
                    set_cookies = [(''csrftoken'', ''token'')], body = Opaque \<rparr>"

definition r_not_found :: response where
  "r_not_found = \<lparr> status_code = 404, location = None, set_cookies = [], body = Opaque \<rparr>"

definition net_site :: transport where
  "net_site c =
     (case c of
        GET url params hdrs \<Rightarrow>
          if url = server @ ''subtitle/search/'' then Inr r_redirect
          else if url = server @ ''cinemast/data/series/sb/breaking-bad/1/1/''
          then Inr \<lparr> status_code = 200, location = None, set_cookies = [], body = Json listing42 \<rparr>
          else Inr r_not_found
      | POST url form \<Rightarrow> Inr r_not_found)"

section \<open>Properties\<close>

subsection \<open>Binary search and sorted insertion\<close>

lemma bisect_left_bounds:
  "sorted a \<Longrightarrow> lo \<le> hi \<Longrightarrow> hi \<le> length a \<Longrightarrow>
   (\<forall>i<lo. a ! i < x) \<Longrightarrow> (\<forall>i. hi \<le> i \<and> i < length a \<longrightarrow> x \<le> a ! i) \<Longrightarrow>
   lo \<le> bisect_left a x lo hi \<and> bisect_left a x lo hi \<le> hi \<and>
   (\<forall>i<bisect_left a x lo hi. a ! i < x) \<and>
   (\<forall>i. bisect_left a x lo hi \<le> i \<and> i < length a \<longrightarrow> x \<le> a ! i)"
proof (induction a x lo hi rule: bisect_left.induct)
  case (1 a x lo hi)
  show ?case
  proof (cases "lo < hi")
    case False
    then have "bisect_left a x lo hi = lo" by (subst bisect_left.simps) simp
    with False 1(3-) show ?thesis by simp
  next
    case True
    define mid where "mid = (lo + hi) div 2"
    have mid: "lo \<le> mid" "mid < hi" using True by (simp_all add: mid_def)
    show ?thesis
    proof (cases "a ! mid < x")
      case lt: True
      have below: "\<forall>i<mid + 1. a ! i < x"
      proof (intro allI impI)
        fix i assume "i < mid + 1"
        then have "a ! i \<le> a ! mid" using 1(3,5) mid by (intro sorted_nth_mono) auto
        with lt show "a ! i < x" by simp
      qed
      have eq: "bisect_left a x lo hi = bisect_left a x (mid + 1) hi"
        using True lt by (simp add: bisect_left.simps [of a x lo hi] mid_def Let_def)
      have "mid + 1 \<le> bisect_left a x (mid + 1) hi \<and> bisect_left a x (mid + 1) hi \<le> hi \<and>
        (\<forall>i<bisect_left a x (mid + 1) hi. a ! i < x) \<and>
        (\<forall>i. bisect_left a x (mid + 1) hi \<le> i \<and> i < length a \<longrightarrow> x \<le> a ! i)"
        using 1(1) [OF True mid_def lt 1(3) _ 1(5) below 1(7)] mid by simp
      then show ?thesis using eq mid by auto
    next
      case ge: False
      have above: "\<forall>i. mid \<le> i \<and> i < length a \<longrightarrow> x \<le> a ! i"
      proof (intro allI impI)
        fix i assume "mid \<le> i \<and> i < length a"
        then have "a ! mid \<le> a ! i" using 1(3) by (intro sorted_nth_mono) auto
        with ge show "x \<le> a ! i" by simp
      qed
      have eq: "bisect_left a x lo hi = bisect_left a x lo mid"
        using True ge by (simp add: bisect_left.simps [of a x lo hi] mid_def Let_def)
      have "lo \<le> bisect_left a x lo mid \<and> bisect_left a x lo mid \<le> mid \<and>
        (\<forall>i<bisect_left a x lo mid. a ! i < x) \<and>
        (\<forall>i. bisect_left a x lo mid \<le> i \<and> i < length a \<longrightarrow> x \<le> a ! i)"
        using 1(2) [OF True mid_def ge 1(3) mid(1) _ 1(6) above] mid 1(5) by simp
      then show ?thesis using eq mid by auto
    qed
  qed
qed

lemma mset_list_insert: "mset (list_insert a i x) = add_mset x (mset a)"
proof -
  have "mset (take i a) + mset (drop i a) = mset a"
    by (metis append_take_drop_id mset_append)
  then show ?thesis by (simp add: list_insert_def)
qed

lemma sorted_insort_left:
  assumes "sorted a"
  shows "sorted (insort_left a x)"
proof -
  define r where "r = bisect_left a x 0 (length a)"
  have "0 \<le> r \<and> r \<le> length a \<and> (\<forall>i<r. a ! i < x) \<and>
      (\<forall>i. r \<le> i \<and> i < length a \<longrightarrow> x \<le> a ! i)"
    unfolding r_def using assms by (intro bisect_left_bounds) auto
  then have b: "r \<le> length a" "\<forall>i<r. a ! i < x" "\<forall>i. r \<le> i \<and> i < length a \<longrightarrow> x \<le> a ! i"
    by blast+
  have 1: "\<forall>y\<in>set (take r a). y \<le> x"
  proof
    fix y assume "y \<in> set (take r a)"
    then obtain i where "i < length (take r a)" "take r a ! i = y" by (auto simp: in_set_conv_nth)
    then show "y \<le> x" using b(1,2) by (auto simp: less_imp_le)
  qed
  have 2: "\<forall>y\<in>set (drop r a). x \<le> y"
  proof
    fix y assume "y \<in> set (drop r a)"
    then obtain i where "i < length (drop r a)" "drop r a ! i = y" by (auto simp: in_set_conv_nth)
    then show "x \<le> y" using b(1,3) by auto
  qed
  have 3: "\<forall>y\<in>set (take r a). \<forall>z\<in>set (drop r a). y \<le> z"
    using 1 2 by (meson order_trans)
  have "sorted (take r a @ x # drop r a)"
    using assms 1 2 3 by (simp add: sorted_append)
  then show ?thesis by (simp add: insort_left_def list_insert_def r_def)
qed

lemma insort_left_eq_sort:
  assumes "sorted a"
  shows "insort_left a x = sort (x # a)"
proof -
  have "mset (insort_left a x) = mset (x # a)"
    by (simp add: insort_left_def mset_list_insert)
  then show ?thesis
    using sorted_insort_left [OF assms] by (simp only: properties_for_sort)
qed

subsection \<open>What the loop computes\<close>

lemma insort_left_sort: "insort_left (sort L) v = sort (L @ [v])"
proof -
  have "mset (insort_left (sort L) v) = mset (L @ [v])"
    by (simp add: insort_left_def mset_list_insert)
  moreover have "sorted (insort_left (sort L) v)"
    by (rule sorted_insort_left) simp
  ultimately show ?thesis by (simp only: properties_for_sort)
qed

lemma flatten_loop_append:
  "flatten_loop known ctx acc (xs @ ys) =
     (case flatten_loop known ctx acc xs of
        Inl e \<Rightarrow> Inl e
      | Inr acc' \<Rightarrow> flatten_loop known ctx acc' ys)"
  by (induction xs arbitrary: acc) (auto split: sum.splits)

lemma flatten_loop_snoc:
  assumes "flatten_loop known ctx [] (fs @ [x]) = Inr acc'"
  obtains acc where "flatten_loop known ctx [] fs = Inr acc"
    and "loop_body known ctx acc x = Inr acc'"
  using assms by (auto simp: flatten_loop_append split: sum.splits)

lemma loop_body_Inr:
  assumes "loop_body known ctx acc x = Inr acc'"
  shows "fst x \<in> set known"
    and "acc' = AList.update (item_id (snd x))
           (case map_of acc (item_id (snd x)) of
              Some s \<Rightarrow> add_release (snd x) s
            | None \<Rightarrow> new_subtitle ctx (Language (fst x)) (snd x)) acc"
  using assms
  by (auto simp: loop_body_def fromalpha2_def split: if_splits option.splits)

lemma merged_snoc_new:
  "merged ctx [x] = Some (new_subtitle ctx (Language (fst x)) (snd x))"
  by (simp add: merged_def new_subtitle_def)

lemma merged_snoc_more:
  assumes "merged ctx frs = Some s"
  shows "merged ctx (frs @ [x]) = Some (add_release (snd x) s)"
proof (cases frs)
  case Nil
  with assms show ?thesis by (simp add: merged_def)
next
  case (Cons leaf others)
  have "sort (map (item_subtitle_version \<circ> snd) (frs @ [x]))
      = insort_left (sort (map (item_subtitle_version \<circ> snd) frs)) (item_subtitle_version (snd x))"
    by (simp only: insort_left_sort map_append list.map comp_apply)
  with assms Cons show ?thesis
    by (auto simp: merged_def add_release_def new_subtitle_def)
qed

lemma flatten_loop_lookup:
  "flatten_loop known ctx [] fs = Inr acc \<Longrightarrow>
   map_of acc sid = merged ctx (fragments_of sid fs)"
proof (induction fs arbitrary: acc rule: rev_induct)
  case Nil
  then show ?case by (simp add: merged_def fragments_of_def)
next
  case (snoc x fs)
  from snoc.prems obtain acc0 where a0: "flatten_loop known ctx [] fs = Inr acc0"
    and body: "loop_body known ctx acc0 x = Inr acc"
    by (rule flatten_loop_snoc)
  note IH = snoc.IH [OF a0]
  note upd = loop_body_Inr(2) [OF body]
  show ?case
  proof (cases "item_id (snd x) = sid")
    case False
    then have "fragments_of sid (fs @ [x]) = fragments_of sid fs"
      by (simp add: fragments_of_def)
    moreover have "map_of acc sid = map_of acc0 sid"
      using False by (subst upd) (simp add: update_conv')
    ultimately show ?thesis using IH by simp
  next
    case True
    then have fr: "fragments_of sid (fs @ [x]) = fragments_of sid fs @ [x]"
      by (simp add: fragments_of_def)
    show ?thesis
    proof (cases "map_of acc0 sid")
      case None
      then have "merged ctx (fragments_of sid fs) = None" using IH by simp
      then have "fragments_of sid fs = []" by (simp add: merged_def split: list.splits)
      moreover have "map_of acc sid = Some (new_subtitle ctx (Language (fst x)) (snd x))"
        using True None by (subst upd) (simp add: update_conv')
      ultimately show ?thesis using fr by (simp add: merged_snoc_new)
    next
      case (Some s)
      then have "merged ctx (fragments_of sid fs) = Some s" using IH by simp
      then have "merged ctx (fragments_of sid fs @ [x]) = Some (add_release (snd x) s)"
        by (rule merged_snoc_more)
      moreover have "map_of acc sid = Some (add_release (snd x) s)"
        using True Some by (subst upd) (simp add: update_conv')
      ultimately show ?thesis using fr by simp
    qed
  qed
qed

lemma flatten_loop_distinct:
  "flatten_loop known ctx acc fs = Inr acc' \<Longrightarrow> distinct (map fst acc) \<Longrightarrow> distinct (map fst acc')"
proof (induction fs arbitrary: acc)
  case Nil then show ?case by simp
next
  case (Cons x fs)
  from Cons.prems(1) obtain acc1 where b: "loop_body known ctx acc x = Inr acc1"
    and r: "flatten_loop known ctx acc1 fs = Inr acc'"
    by (auto split: sum.splits)
  have "distinct (map fst acc1)"
    using Cons.prems(2) by (subst loop_body_Inr(2) [OF b]) (simp add: distinct_update)
  with Cons.IH r show ?case by simp
qed

lemma flatten_loop_Inr_iff:
  "(\<exists>acc'. flatten_loop known ctx acc fs = Inr acc') \<longleftrightarrow> fst ` set fs \<subseteq> set known"
proof (induction fs arbitrary: acc)
  case Nil then show ?case by simp
next
  case (Cons x fs)
  show ?case
  proof (cases "fst x \<in> set known")
    case True
    then have "\<exists>acc1. loop_body known ctx acc x = Inr acc1"
      by (cases "map_of acc (item_id (snd x))") (simp_all add: loop_body_def fromalpha2_def)
    then obtain acc1 where "loop_body known ctx acc x = Inr acc1" ..
    then show ?thesis using Cons.IH [of acc1] True by simp
  next
    case False
    then have "\<exists>e. loop_body known ctx acc x = Inl e"
      by (simp add: loop_body_def fromalpha2_def)
    then show ?thesis using False by auto
  qed
qed

lemma leaves42: "leaves listing42 = [(''he'', item42a), (''he'', item42b)]"
  by (simp add: leaves_def listing42_def)


lemma flatten_Inr:
  assumes "flatten known ctx results = Inr subs"
  obtains acc where "flatten_loop known ctx [] (leaves results) = Inr acc" and "subs = map snd acc"
  using assms by (auto simp: flatten_def split: sum.splits)

lemma merged_SomeD:
  assumes "merged ctx frs = Some s"
  obtains leaf others where "frs = leaf # others"
    and "s = (new_subtitle ctx (Language (fst leaf)) (snd leaf))
            \<lparr> downloaded := sum_list (map (item_downloaded \<circ> snd) frs),
              releases := sort (map (item_subtitle_version \<circ> snd) frs) \<rparr>"
  using assms by (cases frs) (auto simp: merged_def)

lemma fragments_of_hd:
  "fragments_of sid fs = leaf # others \<Longrightarrow> item_id (snd leaf) = sid"
  unfolding fragments_of_def by (metis (mono_tags, lifting) Cons_eq_filterD)

lemma flatten_loop_member:
  assumes "flatten_loop known ctx [] fs = Inr acc" and "(k, s) \<in> set acc"
  shows "merged ctx (fragments_of k fs) = Some s" and "subtitle_id s = k"
proof -
  have "distinct (map fst acc)"
    using flatten_loop_distinct [OF assms(1)] by simp
  with assms(2) have "map_of acc k = Some s" by simp
  then show m: "merged ctx (fragments_of k fs) = Some s"
    using flatten_loop_lookup [OF assms(1)] by simp
  from m obtain leaf others where f: "fragments_of k fs = leaf # others"
    and s: "s = (new_subtitle ctx (Language (fst leaf)) (snd leaf))
            \<lparr> downloaded := sum_list (map (item_downloaded \<circ> snd) (fragments_of k fs)),
              releases := sort (map (item_subtitle_version \<circ> snd) (fragments_of k fs)) \<rparr>"
    by (rule merged_SomeD)
  have "subtitle_id s = item_id (snd leaf)" by (subst s) (simp add: new_subtitle_def)
  then show "subtitle_id s = k" using fragments_of_hd [OF f] by simp
qed

lemma flatten_member:
  assumes "flatten known ctx results = Inr subs" and "s \<in> set subs"
  shows "merged ctx (fragments_of (subtitle_id s) (leaves results)) = Some s"
proof -
  from assms(1) obtain acc where l: "flatten_loop known ctx [] (leaves results) = Inr acc"
    and "subs = map snd acc" by (rule flatten_Inr)
  with assms(2) obtain k where ks: "(k, s) \<in> set acc" by auto
  from flatten_loop_member [OF l ks] show ?thesis by simp
qed


lemmas flatten_eval =
  flatten_def leaves_def loop_body_def fromalpha2_def new_subtitle_def add_release_def
  insort_left_def list_insert_def bisect_left.simps

lemma flatten_listing42: "flatten [''he''] ctx_bb listing42 = Inr [s42]"
  by (simp add: flatten_eval listing42_def item42a_def item42b_def ctx_bb_def s42_def)

lemma flatten_listing_dup: "flatten [''he''] ctx_bb listing_dup = Inr [s_dup]"
  by (simp add: flatten_eval listing_dup_def item42a_def ctx_bb_def s_dup_def)

subsection \<open>Reordering the traversal\<close>

lemma flatten_iff:
  assumes "flatten known ctx results = Inr subs"
  shows "s \<in> set subs \<longleftrightarrow> merged ctx (fragments_of (subtitle_id s) (leaves results)) = Some s"
proof
  assume "s \<in> set subs"
  with assms show "merged ctx (fragments_of (subtitle_id s) (leaves results)) = Some s"
    by (rule flatten_member)
next
  assume m: "merged ctx (fragments_of (subtitle_id s) (leaves results)) = Some s"
  from assms obtain acc where l: "flatten_loop known ctx [] (leaves results) = Inr acc"
    and subs: "subs = map snd acc" by (rule flatten_Inr)
  have "map_of acc (subtitle_id s) = Some s"
    using flatten_loop_lookup [OF l] m by simp
  then have "(subtitle_id s, s) \<in> set acc" by (rule map_of_SomeD)
  then show "s \<in> set subs" unfolding subs by force
qed

lemma flatten_succeeds_iff:
  "(\<exists>subs. flatten known ctx results = Inr subs) \<longleftrightarrow> fst ` set (leaves results) \<subseteq> set known"
proof -
  have "(\<exists>subs. flatten known ctx results = Inr subs)
      \<longleftrightarrow> (\<exists>acc. flatten_loop known ctx [] (leaves results) = Inr acc)"
    by (auto simp: flatten_def split: sum.splits)
  then show ?thesis by (simp only: flatten_loop_Inr_iff)
qed

lemma sort_cong_mset: "mset xs = mset ys \<Longrightarrow> sort xs = sort ys"
  by (metis sorted_list_of_multiset_mset)

lemma sum_list_cong_mset: "mset xs = mset ys \<Longrightarrow> sum_list xs = sum_list (ys :: int list)"
  by (metis sum_mset_sum_list)

lemma merged_permuted:
  assumes "mset frs' = mset frs" and "merged ctx frs = Some s"
  obtains s' leaf' others' where "merged ctx frs' = Some s'" and "frs' = leaf' # others'"
    and "s' = s \<lparr> language := Language (fst leaf'),
                  hearing_impaired := bool_py (item_hearing_impaired (snd leaf')),
                  subtitle_id := item_id (snd leaf'),
                  subtitle_key := item_key (snd leaf') \<rparr>"
proof -
  from assms(2) obtain leaf others where frs: "frs = leaf # others"
    and s: "s = (new_subtitle ctx (Language (fst leaf)) (snd leaf))
            \<lparr> downloaded := sum_list (map (item_downloaded \<circ> snd) frs),
              releases := sort (map (item_subtitle_version \<circ> snd) frs) \<rparr>"
    by (rule merged_SomeD)
  from assms(1) frs have "frs' \<noteq> []" by auto
  then obtain leaf' others' where frs': "frs' = leaf' # others'" by (cases frs') auto
  have d: "sum_list (map (item_downloaded \<circ> snd) frs') = sum_list (map (item_downloaded \<circ> snd) frs)"
    using assms(1) by (intro sum_list_cong_mset) simp
  have r: "sort (map (item_subtitle_version \<circ> snd) frs') = sort (map (item_subtitle_version \<circ> snd) frs)"
    using assms(1) by (intro sort_cong_mset) simp
  let ?s' = "s \<lparr> language := Language (fst leaf'),
                  hearing_impaired := bool_py (item_hearing_impaired (snd leaf')),
                  subtitle_id := item_id (snd leaf'),
                  subtitle_key := item_key (snd leaf') \<rparr>"
  have "merged ctx frs' = Some ((new_subtitle ctx (Language (fst leaf')) (snd leaf'))
            \<lparr> downloaded := sum_list (map (item_downloaded \<circ> snd) frs'),
              releases := sort (map (item_subtitle_version \<circ> snd) frs') \<rparr>)"
    unfolding frs' merged_def by simp
  also have "\<dots> = Some ?s'"
    unfolding d r by (subst s) (simp add: new_subtitle_def)
  finally have "merged ctx frs' = Some ?s'" .
  then show thesis using frs' by (rule that) simp
qed

lemma mset_concat_map: "mset (concat (map f xs)) = (\<Sum>x\<in>#mset xs. mset (f x))"
  by (induction xs) simp_all

lemma leaves_reordered:
  assumes "mset results' = mset results"
  shows "mset (leaves results') = mset (leaves results)"
  unfolding leaves_def mset_concat_map assms ..

lemma flatten_listing_he_en: "flatten [''he'', ''en''] ctx_bb listing_he_en = Inr [s7he]"
  by (simp add: flatten_eval listing_he_en_def item7he_def item7en_def ctx_bb_def s7he_def)

lemma flatten_listing_en_he: "flatten [''he'', ''en''] ctx_bb listing_en_he = Inr [s7en]"
  by (simp add: flatten_eval listing_en_he_def item7he_def item7en_def ctx_bb_def s7en_def)

lemma leaves42r: "mset (leaves listing42r) = mset (leaves listing42)"
  by (simp add: leaves_def listing42_def listing42r_def)

lemma loop_first42: "flatten_loop [''he''] ctx_bb [] [(''he'', item42a)] = Inr [(42, s42 \<lparr> downloaded := 3, releases := [''Group1''] \<rparr>)]"
  by (simp add: flatten_eval item42a_def ctx_bb_def s42_def)

subsection \<open>The search response\<close>

lemma request_session:
  assumes "session p = Some s" and "net c = Inr r"
  shows "request net c p =
           (Inr r, p \<lparr> session := Some (s \<lparr> cookies := set_cookies r @ cookies s,
                                             calls := calls s @ [c] \<rparr>) \<rparr>)"
  using assms by (simp add: request_def)

lemma redirect_status_ok: "is_redirect r \<Longrightarrow> raise_for_status r = Inr ()"
  by (auto simp: is_redirect_def raise_for_status_def)

lemma check_kind_segments:
  assumes "3 \<le> length (split CHR ''/'' path)"
  shows "check_kind (split CHR ''/'' path) kind =
           Inr (if kind_segment path = kind then Some (slug_segment path) else None)"
  using assms by (simp add: check_kind_def from_end_def kind_segment_def slug_segment_def)

lemma search_url_title_response:
  assumes "session p = Some s"
    and "net (GET (server @ ''subtitle/search/'') [(''q'', title_arg)] []) = Inr r"
    and "raise_for_status r = Inr ()"
  shows "fst (search_url_title net title_arg kind p) = url_title_of r kind"
  using assms by (simp add: search_url_title_def request_session)

lemma split_redirect:
  "split CHR ''/'' ''/he/subtitle/series/breaking-bad/''
     = ['''', ''he'', ''subtitle'', ''series'', ''breaking-bad'', '''']"
  by simp

lemma scan_suggestions_find:
  assumes "\<forall>h\<in>set hrefs. 3 \<le> length (split CHR ''/'' h)"
  shows "scan_suggestions kind (map Some hrefs) =
           Inr (map_option slug_segment (find (\<lambda>h. kind_segment h = kind) hrefs))"
  using assms by (induction hrefs) (simp_all add: check_kind_segments)

lemma p_anon_session:
  "session p_anon = Some \<lparr> headers = [(''User-Agent'', ''Subliminal/2.0'')], cookies = [],
                            closed = False, calls = [] \<rparr>"
  by (simp add: p_anon_def)

text \<open>
  On a page whose suggestion links each carry an address of at least three components, the
  scan returns the slug of the first link whose kind segment is the requested kind, and
  nothing when there is none. More generally it returns the slug of the first matching
  link when every link before it has such an address; what follows the match is not read.
\<close>

lemma first_matching_suggestion:
  assumes "session p = Some s"
    and "net (GET (server @ ''subtitle/search/'') [(''q'', title_arg)] []) = Inr r"
    and "raise_for_status r = Inr ()" and "\<not> is_redirect r"
    and "select_suggestions r = map Some hrefs"
    and "\<forall>h\<in>set hrefs. 3 \<le> length (split CHR ''/'' h)"
  shows "fst (search_url_title net title_arg kind p) =
           Inr (map_option slug_segment (find (\<lambda>h. kind_segment h = kind) hrefs))"
proof -
  have "fst (search_url_title net title_arg kind p) = url_title_of r kind"
    using assms(1,2,3) by (rule search_url_title_response)
  also have "\<dots> = scan_suggestions kind (map Some hrefs)"
    using assms(4,5) by (simp add: url_title_of_def)
  finally show ?thesis using assms(6) by (simp only: scan_suggestions_find)
qed

lemma first_matching_suggestion_example:
  "session p_anon = Some \<lparr> headers = [(''User-Agent'', ''Subliminal/2.0'')], cookies = [],
                            closed = False, calls = [] \<rparr>
   \<and> raise_for_status r_suggestions = Inr () \<and> \<not> is_redirect r_suggestions
   \<and> select_suggestions r_suggestions
        = map Some [''/he/subtitle/movie/breaking-bad-the-movie/'',
                    ''/he/subtitle/series/breaking-bad/'', ''/he/subtitle/series/breaking-bad-2/'']
   \<and> 3 \<le> length (split CHR ''/'' ''/he/subtitle/movie/breaking-bad-the-movie/'')
   \<and> 3 \<le> length (split CHR ''/'' ''/he/subtitle/series/breaking-bad/'')
   \<and> 3 \<le> length (split CHR ''/'' ''/he/subtitle/series/breaking-bad-2/'')
   \<and> fst (search_url_title (\<lambda>c. Inr r_suggestions) ''Breaking Bad'' ''series'' p_anon)
       = Inr (Some ''breaking-bad'')
   \<and> fst (search_url_title (\<lambda>c. Inr r_suggestions) ''Breaking Bad'' ''game'' p_anon) = Inr None"
proof -
  let ?hrefs = "[''/he/subtitle/movie/breaking-bad-the-movie/'',
                 ''/he/subtitle/series/breaking-bad/'', ''/he/subtitle/series/breaking-bad-2/'']"
  have 1: "session p_anon = Some \<lparr> headers = [(''User-Agent'', ''Subliminal/2.0'')], cookies = [],
                            closed = False, calls = [] \<rparr>"
    by (simp add: p_anon_def)
  have 3: "raise_for_status r_suggestions = Inr ()"
    by (simp add: raise_for_status_def r_suggestions_def)
  have 4: "\<not> is_redirect r_suggestions" by (simp add: is_redirect_def r_suggestions_def)
  have 5: "select_suggestions r_suggestions = map Some ?hrefs"
    by (simp add: select_suggestions_def r_suggestions_def)
  have 6: "\<forall>h\<in>set ?hrefs. 3 \<le> length (split CHR ''/'' h)" by simp
  have a: "fst (search_url_title (\<lambda>c. Inr r_suggestions) ''Breaking Bad'' ''series'' p_anon)
             = Inr (Some ''breaking-bad'')"
    using first_matching_suggestion [where net = "\<lambda>c. Inr r_suggestions"
        and title_arg = "''Breaking Bad''" and kind = "''series''", OF 1 _ 3 4 5 6]
    by (simp add: kind_segment_def slug_segment_def)
  have b: "fst (search_url_title (\<lambda>c. Inr r_suggestions) ''Breaking Bad'' ''game'' p_anon) = Inr None"
    using first_matching_suggestion [where net = "\<lambda>c. Inr r_suggestions"
        and title_arg = "''Breaking Bad''" and kind = "''game''", OF 1 _ 3 4 5 6]
    by (simp add: kind_segment_def slug_segment_def)
  show ?thesis using 1 3 4 5 6 a b by simp
qed

lemma scan_suggestions_first_match:
  assumes "\<forall>h\<in>set before. 3 \<le> length (split CHR ''/'' h) \<and> kind_segment h \<noteq> kind"
    and "3 \<le> length (split CHR ''/'' h)" and "kind_segment h = kind"
  shows "scan_suggestions kind (map Some before @ Some h # rest) = Inr (Some (slug_segment h))"
  using assms by (induction before) (simp_all add: check_kind_segments)

subsection \<open>The archive\<close>

lemma download_subtitle_unzip:
  assumes "releases subtitle = v # vs" and "session p = Some s"
    and "net (download_call subtitle v) = Inr r"
    and "raise_for_status r = Inr ()" and "ZipFile r = Inr zf"
  shows "fst (download_subtitle net fix_line_ending subtitle p) =
           map_sum id (\<lambda>bytes. ()) (unzip_single fix_line_ending zf)"
    and "fst (snd (download_subtitle net fix_line_ending subtitle p)) =
           (case unzip_single fix_line_ending zf of
              Inl e \<Rightarrow> subtitle
            | Inr bytes \<Rightarrow> subtitle \<lparr> content := Some bytes \<rparr>)"
  using assms
  by (auto simp: download_subtitle_def download_call_def request_session split: sum.splits)

lemma zf_read_single:
  assumes "candidates zf = [n]"
  obtains bytes where "zf_read zf n = Inr bytes"
    and "filter (\<lambda>entry. \<not> endswith (fst entry) ''.txt'') zf = [(n, bytes)]"
proof -
  have "map fst (filter (\<lambda>entry. \<not> endswith (fst entry) ''.txt'') zf) = [n]"
    using assms by (simp add: candidates_def namelist_def filter_map comp_def)
  then obtain entry where e: "filter (\<lambda>entry. \<not> endswith (fst entry) ''.txt'') zf = [entry]"
    and n: "fst entry = n" by auto
  have "entry \<in> set (filter (\<lambda>entry. \<not> endswith (fst entry) ''.txt'') zf)"
    unfolding e by simp
  then have mem: "entry \<in> set zf" and nontxt: "\<not> endswith n ''.txt''"
    using n by simp_all
  have only: "b = snd entry" if "(n, b) \<in> set zf" for b
  proof -
    from that nontxt have "(n, b) \<in> set (filter (\<lambda>entry. \<not> endswith (fst entry) ''.txt'') zf)"
      by simp
    then show ?thesis unfolding e by auto
  qed
  have "n \<in> fst ` set (rev zf)"
    using mem n by (metis imageI set_rev)
  then have "map_of (rev zf) n \<noteq> None"
    by (simp only: map_of_eq_None_iff not_not)
  then obtain b where b: "map_of (rev zf) n = Some b" by auto
  then have "(n, b) \<in> set zf" using map_of_SomeD by fastforce
  then have "b = snd entry" by (rule only)
  with b have "zf_read zf n = Inr (snd entry)" by (simp add: zf_read_def)
  moreover have "filter (\<lambda>entry. \<not> endswith (fst entry) ''.txt'') zf = [(n, snd entry)]"
    using e n by (cases entry) simp
  ultimately show thesis by (rule that)
qed

lemma unzip_single_one:
  assumes "candidates zf = [n]"
  obtains bytes where "filter (\<lambda>entry. \<not> endswith (fst entry) ''.txt'') zf = [(n, bytes)]"
    and "unzip_single fix_line_ending zf = Inr (fix_line_ending bytes)"
proof -
  from assms obtain bytes where r: "zf_read zf n = Inr bytes"
    and f: "filter (\<lambda>entry. \<not> endswith (fst entry) ''.txt'') zf = [(n, bytes)]"
    by (rule zf_read_single)
  have "unzip_single fix_line_ending zf = Inr (fix_line_ending bytes)"
    using assms r by (simp add: unzip_single_def candidates_def [symmetric])
  with f show thesis by (rule that)
qed

lemma unzip_single_many:
  assumes "2 \<le> length (candidates zf)"
  shows "unzip_single fix_line_ending zf = Inl (ProviderError ''More than one file to unzip'')"
  using assms by (simp add: unzip_single_def candidates_def [symmetric])

lemma unzip_single_none:
  assumes "candidates zf = []"
  shows "unzip_single fix_line_ending zf = Inl IndexError"
  using assms by (simp add: unzip_single_def candidates_def [symmetric])

lemma s42_releases: "releases s42 = ''Group1'' # [''Group2'']"
  by (simp add: s42_def)

subsection \<open>The session\<close>

lemma session_open_request: "session_open (snd (request net c p)) = session_open p"
  by (simp add: request_def session_open_def split: option.splits sum.splits)

lemma session_open_logged_in [simp]: "session_open (p \<lparr> logged_in := b \<rparr>) = session_open p"
  by (simp add: session_open_def)

lemma initialize_session_open: "session_open (snd (initialize net short_version p0))"
proof -
  define p where "p = p0 \<lparr> session := Some \<lparr> headers = [(''User-Agent'', ''Subliminal/'' @ short_version)],
                                        cookies = [], closed = False, calls = [] \<rparr> \<rparr>"
  have p: "session_open p" by (simp add: p_def session_open_def)
  have r1: "session_open (snd (request net c p))" for c
    using p by (simp only: session_open_request)
  have r2: "session_open (snd (request net c' (snd (request net c p))))" for c c'
    using p by (simp only: session_open_request)
  have open1: "session_open p1" if "request net c p = (x, p1)" for c x p1
    using r1 [of c] that by simp
  have open2: "session_open p2" if "request net c p = (x, p1)" and "request net c' p1 = (y, p2)"
    for c c' x y p1 p2
    using r2 [of c' c] that by simp
  show ?thesis
    unfolding initialize_def Let_def p_def [symmetric]
    by (auto split: option.splits sum.splits prod.splits simp: p dest: open1 open2)
qed

lemma logout_session_open: "session_open (snd (logout net p)) = session_open p"
proof (cases "logged_in p")
  case False
  then show ?thesis by (simp add: logout_def)
next
  case True
  obtain x p1 where r: "request net (GET (server @ ''subscenter/accounts/logout/'') [] []) p = (x, p1)"
    by (cases "request net (GET (server @ ''subscenter/accounts/logout/'') [] []) p")
  then have "session_open p1 = session_open p"
    using session_open_request [of net "GET (server @ ''subscenter/accounts/logout/'') [] []" p] by simp
  then show ?thesis using True r by (auto simp: logout_def split: sum.splits)
qed

lemmas session_eval =
  initialize_def terminate_def logout_def request_def session_cookies_def session_open_def
  raise_for_status_def server_def Let_def

lemma initialize_refused:
  "initialize (\<lambda>c. Inr r_login_page) ''2.0'' p_user =
     (Inl (AuthenticationError ''user''),
      \<lparr> username = Some ''user'', password = Some ''secret'', logged_in = False,
        session = Some \<lparr> headers = [(''User-Agent'', ''Subliminal/2.0'')],
                         cookies = [(''csrftoken'', ''token''), (''csrftoken'', ''token'')],
                         closed = False,
                         calls = [GET ''http://subscenter.cinemast.com/he/subscenter/accounts/login/'' [] [],
                                  POST ''http://subscenter.cinemast.com/he/subscenter/accounts/login/''
                                    [(''username'', ''user''), (''password'', ''secret''),
                                     (''csrfmiddlewaretoken'', ''token'')]] \<rparr> \<rparr>)"
  by (simp add: session_eval p_user_def r_login_page_def)

subsection \<open>The calls of a query\<close>

lemma request_no_session:
  "session p = None \<Longrightarrow> request net c p = (Inl (AttributeError ''session''), p)"
  by (simp add: request_def)

lemma request_calls:
  "session p \<noteq> None \<Longrightarrow> calls_made (snd (request net c p)) = calls_made p @ [c]"
  by (auto simp: request_def calls_made_def split: sum.splits)

lemma request_keeps_session:
  "session p \<noteq> None \<Longrightarrow> session (snd (request net c p)) \<noteq> None"
  by (auto simp: request_def split: sum.splits)

lemma search_url_title_state:
  "snd (search_url_title net title_arg kind p) =
     snd (request net (GET (server @ ''subtitle/search/'') [(''q'', title_arg)] []) p)"
  by (simp add: search_url_title_def split: prod.splits sum.splits)

lemma search_url_title_no_session:
  "session p = None \<Longrightarrow>
   search_url_title net title_arg kind p = (Inl (AttributeError ''session''), p)"
  by (simp add: search_url_title_def request_no_session)

lemma query_urls_state:
  assumes "episode_form series_arg season_arg episode_arg \<noteq> None \<or> movie_form title_arg \<noteq> None"
  shows "\<exists>t k. snd (query_urls net series_arg season_arg episode_arg title_arg p) =
           snd (search_url_title net t k p)"
  using assms
  by (auto simp: query_urls_def split: option.splits prod.splits sum.splits) (metis snd_conv)+

lemma query_state:
  "snd (query net known series_arg season_arg episode_arg title_arg p) =
     snd (query_urls net series_arg season_arg episode_arg title_arg p)
   \<or> (\<exists>c. snd (query net known series_arg season_arg episode_arg title_arg p) =
        snd (request net c (snd (query_urls net series_arg season_arg episode_arg title_arg p))))"
  by (auto simp: query_def split: prod.splits sum.splits) (metis snd_conv)+

lemma query_makes_call:
  assumes "episode_form series_arg season_arg episode_arg \<noteq> None \<or> movie_form title_arg \<noteq> None"
    and "session p \<noteq> None"
  shows "length (calls_made p)
           < length (calls_made (snd (query net known series_arg season_arg episode_arg title_arg p)))"
proof -
  let ?u = "snd (query_urls net series_arg season_arg episode_arg title_arg p)"
  from query_urls_state [OF assms(1), of net p] obtain t k
    where "?u = snd (search_url_title net t k p)" by blast
  then have u: "?u = snd (request net (GET (server @ ''subtitle/search/'') [(''q'', t)] []) p)"
    by (simp only: search_url_title_state)
  have lu: "length (calls_made ?u) = Suc (length (calls_made p))"
    unfolding u using assms(2) by (simp add: request_calls)
  have su: "session ?u \<noteq> None"
    unfolding u using assms(2) by (rule request_keeps_session)
  from query_state [of net known series_arg season_arg episode_arg title_arg p]
  show ?thesis
  proof
    assume "snd (query net known series_arg season_arg episode_arg title_arg p) = ?u"
    with lu show ?thesis by simp
  next
    assume "\<exists>c. snd (query net known series_arg season_arg episode_arg title_arg p) =
              snd (request net c ?u)"
    then obtain c where "snd (query net known series_arg season_arg episode_arg title_arg p) =
              snd (request net c ?u)" ..
    with lu su show ?thesis by (simp add: request_calls)
  qed
qed

lemma query_no_session:
  assumes "episode_form series_arg season_arg episode_arg \<noteq> None \<or> movie_form title_arg \<noteq> None"
    and "session p = None"
  shows "query net known series_arg season_arg episode_arg title_arg p =
           (Inl (AttributeError ''session''), p)"
  using assms
  by (auto simp: query_def query_urls_def search_url_title_no_session split: option.splits)

lemmas query_eval =
  query_def query_urls_def search_url_title_def url_title_of_def check_kind_def from_end_def
  request_def raise_for_status_def is_redirect_def json_loads_def str_slug_def str_int_def
  str_nat.simps server_def net_site_def r_redirect_def r_not_found_def p_anon_def calls_made_def

lemma query_both_forms:
  "fst (query net_site [''he''] (Some ''Breaking Bad'') (Some 1) (Some 1) (Some ''Pilot'') p_anon)
     = Inr [s42 \<lparr> title := Some ''Pilot'' \<rparr>]"
  by (simp add: query_eval flatten_eval listing42_def item42a_def item42b_def s42_def)

lemma query_both_forms_calls:
  "calls_made (snd (query net_site [''he''] (Some ''Breaking Bad'') (Some 1) (Some 1) (Some ''Pilot'') p_anon))
     = [GET ''http://subscenter.cinemast.com/he/subtitle/search/'' [(''q'', ''Breaking Bad'')] [],
        GET ''http://subscenter.cinemast.com/he/cinemast/data/series/sb/breaking-bad/1/1/'' [] []]"
  by (simp add: query_eval flatten_eval listing42_def item42a_def item42b_def s42_def)

lemma query_partial_triple:
  "fst (query net_site [''he''] (Some ''Breaking Bad'') None (Some 1) (Some ''Pilot'') p_anon)
     = Inl (HTTPError 404)"
  by (simp add: query_eval)

lemma query_partial_triple_calls:
  "calls_made (snd (query net_site [''he''] (Some ''Breaking Bad'') None (Some 1) (Some ''Pilot'') p_anon))
     = [GET ''http://subscenter.cinemast.com/he/subtitle/search/'' [(''q'', ''Pilot'')] [],
        GET ''http://subscenter.cinemast.com/he/cinemast/data/movie/sb/None/'' [] []]"
  by (simp add: query_eval)

section \<open>The claims\<close>

subsection \<open>C1: the releases of a returned record\<close>

text \<open>
  C1, as stated, fails: two leaves with the same id and the same release name give a
  record whose releases hold that name twice, because the merge inserts the name without
  looking for it.
\<close>

theorem releases_duplicate_counterexample:
  "flatten [''he''] ctx_bb listing_dup = Inr [s_dup]
   \<and> releases s_dup = [''Group1'', ''Group1'']
   \<and> \<not> distinct (releases s_dup)"
  using flatten_listing_dup by (simp add: s_dup_def)

text \<open>
  C1, amended: for every listing and every order of arrival, the releases of every record
  that the loop of \<^verbatim>\<open>query\<close> returns are sorted, and they are the release names of all
  leaves with the record's id, one entry for each leaf; so they are free of duplicates
  exactly when those leaves carry pairwise different release names.
\<close>

theorem releases_sorted:
  assumes "flatten known ctx results = Inr subs" and "s \<in> set subs"
  shows "sorted (releases s) \<and>
         releases s = sort (map (item_subtitle_version \<circ> snd)
                               (fragments_of (subtitle_id s) (leaves results))) \<and>
         (distinct (releases s) \<longleftrightarrow>
            distinct (map (item_subtitle_version \<circ> snd)
                          (fragments_of (subtitle_id s) (leaves results))))"
proof -
  let ?frs = "fragments_of (subtitle_id s) (leaves results)"
  from flatten_member [OF assms] have "merged ctx ?frs = Some s" .
  then have r: "releases s = sort (map (item_subtitle_version \<circ> snd) ?frs)"
    by (rule merged_SomeD) simp
  then show ?thesis by (simp del: map_map)
qed

theorem releases_sorted_witness:
  "flatten [''he''] ctx_bb listing42 = Inr [s42] \<and> s42 \<in> set [s42]
   \<and> sorted (releases s42)
   \<and> releases s42 = sort (map (item_subtitle_version \<circ> snd)
                               (fragments_of (subtitle_id s42) (leaves listing42)))"
  using releases_sorted [OF flatten_listing42, of s42] flatten_listing42 by simp

subsection \<open>C2: the download count of a returned record\<close>

text \<open>
  C2: for every listing, the download count of every record that the loop of
  \<^verbatim>\<open>query\<close> returns is the sum of the download counts of all leaves with the record's
  id. The example of the claim is the witness: two leaves of id 42 with releases Group1
  and Group2 and counts 3 and 5 give one record, of id 42, with both releases and count 8.
\<close>

theorem downloaded_sum:
  assumes "flatten known ctx results = Inr subs" and "s \<in> set subs"
  shows "downloaded s = sum_list (map (item_downloaded \<circ> snd)
                                      (fragments_of (subtitle_id s) (leaves results)))"
proof -
  from flatten_member [OF assms]
  have "merged ctx (fragments_of (subtitle_id s) (leaves results)) = Some s" .
  then show ?thesis by (rule merged_SomeD) simp
qed

theorem downloaded_sum_witness:
  "flatten [''he''] ctx_bb listing42 = Inr [s42] \<and> s42 \<in> set [s42]
   \<and> downloaded s42 = sum_list (map (item_downloaded \<circ> snd)
                                     (fragments_of (subtitle_id s42) (leaves listing42)))
   \<and> downloaded s42 = 8 \<and> releases s42 = [''Group1'', ''Group2''] \<and> subtitle_id s42 = 42"
  using downloaded_sum [OF flatten_listing42, of s42] flatten_listing42 by (simp add: s42_def)

subsection \<open>C3: the order of traversal\<close>

text \<open>
  C3, as stated, fails for the fields other than releases and download count: they are
  those of the first leaf met for the id, so two orders of the same listing give records
  that differ in language, hearing-impaired flag and key when the leaves of one id differ
  there.
\<close>

theorem traversal_order_counterexample:
  "mset listing_en_he = mset listing_he_en
   \<and> flatten [''he'', ''en''] ctx_bb listing_he_en = Inr [s7he]
   \<and> flatten [''he'', ''en''] ctx_bb listing_en_he = Inr [s7en]
   \<and> language s7he \<noteq> language s7en
   \<and> hearing_impaired s7he \<noteq> hearing_impaired s7en
   \<and> subtitle_key s7he \<noteq> subtitle_key s7en"
  using flatten_listing_he_en flatten_listing_en_he
  by (simp add: listing_he_en_def listing_en_he_def s7he_def s7en_def)

text \<open>
  C3, amended: any two traversal orders (two listings with the same leaves, each as often)
  either both fail or both succeed, and then give the same set of ids and, for each id,
  the same releases, the same download count and the same values of every field except
  language, hearing-impaired flag and key, which are those of the first leaf met for the
  id in the respective order.
\<close>

theorem flatten_order_independent:
  assumes "mset (leaves results') = mset (leaves results)"
    and "flatten known ctx results = Inr subs"
  shows "\<exists>subs'. flatten known ctx results' = Inr subs' \<and>
           subtitle_id ` set subs' = subtitle_id ` set subs \<and>
           (\<forall>s\<in>set subs. \<exists>s'\<in>set subs'.
              subtitle_id s' = subtitle_id s \<and> releases s' = releases s \<and>
              downloaded s' = downloaded s \<and>
              s' = s \<lparr> language := language s', hearing_impaired := hearing_impaired s',
                       subtitle_key := subtitle_key s' \<rparr>)"
proof -
  have "fst ` set (leaves results) \<subseteq> set known"
    using assms(2) flatten_succeeds_iff [of known ctx results] by blast
  moreover have "set (leaves results') = set (leaves results)"
    using assms(1) by (rule mset_eq_setD)
  ultimately have "\<exists>subs'. flatten known ctx results' = Inr subs'"
    by (simp add: flatten_succeeds_iff)
  then obtain subs' where f': "flatten known ctx results' = Inr subs'" ..
  have fr: "mset (fragments_of sid (leaves results')) = mset (fragments_of sid (leaves results))" for sid
    using assms(1) by (simp add: fragments_of_def)
  have fwd: "\<exists>s'\<in>set subs'. subtitle_id s' = subtitle_id s \<and> releases s' = releases s \<and>
              downloaded s' = downloaded s \<and>
              s' = s \<lparr> language := language s', hearing_impaired := hearing_impaired s',
                       subtitle_key := subtitle_key s' \<rparr>"
    if "s \<in> set subs" and f: "flatten known ctx results = Inr subs"
      and f': "flatten known ctx results' = Inr subs'"
      and fr: "mset (fragments_of (subtitle_id s) (leaves results')) = mset (fragments_of (subtitle_id s) (leaves results))"
    for s subs subs' results results'
  proof -
    from that(1) f have "merged ctx (fragments_of (subtitle_id s) (leaves results)) = Some s"
      by (simp add: flatten_iff)
    with fr obtain s' leaf' others'
      where m': "merged ctx (fragments_of (subtitle_id s) (leaves results')) = Some s'"
        and l': "fragments_of (subtitle_id s) (leaves results') = leaf' # others'"
        and s': "s' = s \<lparr> language := Language (fst leaf'),
                  hearing_impaired := bool_py (item_hearing_impaired (snd leaf')),
                  subtitle_id := item_id (snd leaf'),
                  subtitle_key := item_key (snd leaf') \<rparr>"
      by (rule merged_permuted)
    have id: "subtitle_id s' = subtitle_id s"
      using fragments_of_hd [OF l'] by (subst s') simp
    then have "s' \<in> set subs'" using m' f' by (simp add: flatten_iff)
    moreover have "s' = s \<lparr> language := language s', hearing_impaired := hearing_impaired s',
                       subtitle_key := subtitle_key s' \<rparr>"
      using fragments_of_hd [OF l'] by (subst (1 2 3 4) s') simp
    moreover have "releases s' = releases s" "downloaded s' = downloaded s"
      by (simp_all add: s')
    ultimately show ?thesis using id by blast
  qed
  have a: "\<forall>s\<in>set subs. \<exists>s'\<in>set subs'.
              subtitle_id s' = subtitle_id s \<and> releases s' = releases s \<and>
              downloaded s' = downloaded s \<and>
              s' = s \<lparr> language := language s', hearing_impaired := hearing_impaired s',
                       subtitle_key := subtitle_key s' \<rparr>"
    using fwd [OF _ assms(2) f' fr] by blast
  have b: "\<forall>s'\<in>set subs'. \<exists>s\<in>set subs. subtitle_id s = subtitle_id s'"
    using fwd [OF _ f' assms(2) fr [symmetric]] by blast
  have "subtitle_id ` set subs' = subtitle_id ` set subs"
  proof (intro equalityI subsetI)
    fix k assume "k \<in> subtitle_id ` set subs'"
    then obtain s' where "s' \<in> set subs'" and "k = subtitle_id s'" by (rule imageE)
    with b obtain s where "s \<in> set subs" and "subtitle_id s = k" by metis
    then show "k \<in> subtitle_id ` set subs" by (metis imageI)
  next
    fix k assume "k \<in> subtitle_id ` set subs"
    then obtain s where "s \<in> set subs" and "k = subtitle_id s" by (rule imageE)
    with a obtain s' where "s' \<in> set subs'" and "subtitle_id s' = k" by metis
    then show "k \<in> subtitle_id ` set subs'" by (metis imageI)
  qed
  with f' a show ?thesis by blast
qed

theorem flatten_order_independent_witness:
  "mset (leaves listing42r) = mset (leaves listing42)
   \<and> flatten [''he''] ctx_bb listing42 = Inr [s42]
   \<and> flatten [''he''] ctx_bb listing42r = Inr [s42]"
proof -
  from flatten_order_independent [OF leaves42r flatten_listing42]
  obtain subs' where f: "flatten [''he''] ctx_bb listing42r = Inr subs'"
    and ids: "subtitle_id ` set subs' = subtitle_id ` set [s42]"
    and recs: "\<forall>s\<in>set [s42]. \<exists>s'\<in>set subs'.
              subtitle_id s' = subtitle_id s \<and> releases s' = releases s \<and>
              downloaded s' = downloaded s \<and>
              s' = s \<lparr> language := language s', hearing_impaired := hearing_impaired s',
                       subtitle_key := subtitle_key s' \<rparr>"
    by blast
  have "flatten [''he''] ctx_bb listing42r = Inr [s42]"
    by (simp add: flatten_eval listing42r_def item42a_def item42b_def ctx_bb_def s42_def)
  with f ids recs show ?thesis using leaves42r flatten_listing42 by simp
qed

subsection \<open>C10: what a later fragment changes\<close>

text \<open>
  C10: in every state the loop reaches, a record stored under an id has the language,
  the hearing-impaired flag and the key of the first leaf met for that id, and the
  fields given by the query; processing a further leaf with that id replaces the record
  by one that differs only in its releases and its download count, and leaves the
  records of the other ids as they are.
\<close>

theorem merge_keeps_first_fragment:
  assumes "flatten_loop known ctx [] fs = Inr acc" and "map_of acc sid = Some s"
  shows "(\<exists>first others. fragments_of sid fs = first # others \<and>
            language s = Language (fst first) \<and>
            hearing_impaired s = bool_py (item_hearing_impaired (snd first)) \<and>
            subtitle_key s = item_key (snd first) \<and>
            subtitle_id s = item_id (snd first) \<and>
            page_link s = ctx_page_link ctx \<and> series s = ctx_series ctx \<and>
            season s = ctx_season ctx \<and> episode s = ctx_episode ctx \<and>
            title s = ctx_title ctx \<and> content s = None)
       \<and> (\<forall>leaf acc'. item_id (snd leaf) = sid \<and> loop_body known ctx acc leaf = Inr acc' \<longrightarrow>
            map_of acc' sid =
              Some (s \<lparr> releases := insort_left (releases s) (item_subtitle_version (snd leaf)),
                        downloaded := downloaded s + item_downloaded (snd leaf) \<rparr>)
            \<and> (\<forall>k. k \<noteq> sid \<longrightarrow> map_of acc' k = map_of acc k))"
proof (intro conjI allI impI)
  from flatten_loop_lookup [OF assms(1), of sid] assms(2)
  have "merged ctx (fragments_of sid fs) = Some s" by simp
  then obtain first others where f: "fragments_of sid fs = first # others"
    and s: "s = (new_subtitle ctx (Language (fst first)) (snd first))
            \<lparr> downloaded := sum_list (map (item_downloaded \<circ> snd) (fragments_of sid fs)),
              releases := sort (map (item_subtitle_version \<circ> snd) (fragments_of sid fs)) \<rparr>"
    by (rule merged_SomeD)
  have "language s = Language (fst first) \<and>
            hearing_impaired s = bool_py (item_hearing_impaired (snd first)) \<and>
            subtitle_key s = item_key (snd first) \<and>
            subtitle_id s = item_id (snd first) \<and>
            page_link s = ctx_page_link ctx \<and> series s = ctx_series ctx \<and>
            season s = ctx_season ctx \<and> episode s = ctx_episode ctx \<and>
            title s = ctx_title ctx \<and> content s = None"
    by (subst (1 2 3 4 5 6 7 8 9 10) s) (simp add: new_subtitle_def)
  with f show "\<exists>first others. fragments_of sid fs = first # others \<and>
            language s = Language (fst first) \<and>
            hearing_impaired s = bool_py (item_hearing_impaired (snd first)) \<and>
            subtitle_key s = item_key (snd first) \<and>
            subtitle_id s = item_id (snd first) \<and>
            page_link s = ctx_page_link ctx \<and> series s = ctx_series ctx \<and>
            season s = ctx_season ctx \<and> episode s = ctx_episode ctx \<and>
            title s = ctx_title ctx \<and> content s = None" by blast
next
  fix leaf acc'
  assume h: "item_id (snd leaf) = sid \<and> loop_body known ctx acc leaf = Inr acc'"
  then have upd: "acc' = AList.update sid (add_release (snd leaf) s) acc"
    using loop_body_Inr(2) [of known ctx acc leaf acc'] assms(2) by simp
  show "map_of acc' sid =
          Some (s \<lparr> releases := insort_left (releases s) (item_subtitle_version (snd leaf)),
                    downloaded := downloaded s + item_downloaded (snd leaf) \<rparr>)"
    by (simp add: upd update_conv' add_release_def)
  fix k assume "k \<noteq> sid"
  then show "map_of acc' k = map_of acc k" by (simp add: upd update_conv')
qed

theorem merge_keeps_first_fragment_witness:
  "flatten_loop [''he''] ctx_bb [] [(''he'', item42a)]
     = Inr [(42, s42 \<lparr> downloaded := 3, releases := [''Group1''] \<rparr>)]
   \<and> map_of [(42, s42 \<lparr> downloaded := 3, releases := [''Group1''] \<rparr>)] 42
       = Some (s42 \<lparr> downloaded := 3, releases := [''Group1''] \<rparr>)
   \<and> loop_body [''he''] ctx_bb [(42, s42 \<lparr> downloaded := 3, releases := [''Group1''] \<rparr>)] (''he'', item42b)
       = Inr [(42, s42)]
   \<and> map_of [(42::int, s42)] 42 = Some s42
   \<and> language s42 = Language ''he'' \<and> subtitle_key s42 = item_key item42a"
proof -
  let ?s = "s42 \<lparr> downloaded := 3, releases := [''Group1''] \<rparr>"
  have 1: "map_of [(42::int, ?s)] 42 = Some ?s" by simp
  have 2: "loop_body [''he''] ctx_bb [(42, ?s)] (''he'', item42b) = Inr [(42, s42)]"
    by (simp add: flatten_eval item42b_def ctx_bb_def s42_def)
  have 3: "item_id (snd (''he'', item42b)) = 42" by (simp add: item42b_def)
  from merge_keeps_first_fragment [OF loop_first42 1]
  have "map_of [(42::int, s42)] 42 =
          Some (?s \<lparr> releases := insort_left (releases ?s) (item_subtitle_version (snd (''he'', item42b))),
                      downloaded := downloaded ?s + item_downloaded (snd (''he'', item42b)) \<rparr>)"
    using 2 3 by blast
  then show ?thesis using loop_first42 1 2 by (simp add: s42_def item42a_def)
qed

subsection \<open>C5: a redirected search\<close>

text \<open>
  C5: when the search is answered by a redirect whose Location has a kind segment (at
  least three components between slashes), \<^verbatim>\<open>_search_url_title\<close> returns the slug, the
  second component from the end, if the kind segment, the third from the end, equals
  the requested kind, and \<^verbatim>\<open>None\<close> otherwise, never the slug of the other kind.
\<close>

theorem redirect_kind_checked:
  assumes "session p = Some s"
    and "net (GET (server @ ''subtitle/search/'') [(''q'', title_arg)] []) = Inr r"
    and "is_redirect r" and "location r = Some loc"
    and "3 \<le> length (split CHR ''/'' loc)"
  shows "fst (search_url_title net title_arg kind p) =
           Inr (if kind_segment loc = kind then Some (slug_segment loc) else None)"
proof -
  have "fst (search_url_title net title_arg kind p) = url_title_of r kind"
    using assms(1,2) redirect_status_ok [OF assms(3)] by (rule search_url_title_response)
  also have "\<dots> = check_kind (split CHR ''/'' loc) kind"
    using assms(3,4) by (simp add: url_title_of_def)
  finally show ?thesis using assms(5) by (simp only: check_kind_segments)
qed

theorem redirect_kind_checked_witness:
  "session p_anon = Some \<lparr> headers = [(''User-Agent'', ''Subliminal/2.0'')], cookies = [],
                            closed = False, calls = [] \<rparr>
   \<and> is_redirect r_redirect
   \<and> location r_redirect = Some ''/he/subtitle/series/breaking-bad/''
   \<and> 3 \<le> length (split CHR ''/'' ''/he/subtitle/series/breaking-bad/'')
   \<and> fst (search_url_title (\<lambda>c. Inr r_redirect) ''Breaking Bad'' ''movie'' p_anon) = Inr None
   \<and> fst (search_url_title (\<lambda>c. Inr r_redirect) ''Breaking Bad'' ''series'' p_anon)
       = Inr (Some ''breaking-bad'')"
proof -
  have 1: "session p_anon = Some \<lparr> headers = [(''User-Agent'', ''Subliminal/2.0'')], cookies = [],
                            closed = False, calls = [] \<rparr>"
    by (simp add: p_anon_def)
  have 3: "is_redirect r_redirect" by (simp add: is_redirect_def r_redirect_def)
  have 4: "location r_redirect = Some ''/he/subtitle/series/breaking-bad/''"
    by (simp add: r_redirect_def)
  have 5: "3 \<le> length (split CHR ''/'' ''/he/subtitle/series/breaking-bad/'')"
    by (simp only: split_redirect) simp
  have k: "kind_segment ''/he/subtitle/series/breaking-bad/'' = ''series''"
    and g: "slug_segment ''/he/subtitle/series/breaking-bad/'' = ''breaking-bad''"
    by (simp_all only: kind_segment_def slug_segment_def split_redirect) simp_all
  have a: "fst (search_url_title (\<lambda>c. Inr r_redirect) ''Breaking Bad'' ''movie'' p_anon) = Inr None"
    using redirect_kind_checked [where net = "\<lambda>c. Inr r_redirect" and title_arg = "''Breaking Bad''"
        and kind = "''movie''", OF 1 _ 3 4 5]
    by (simp add: k)
  have b: "fst (search_url_title (\<lambda>c. Inr r_redirect) ''Breaking Bad'' ''series'' p_anon)
             = Inr (Some ''breaking-bad'')"
    using redirect_kind_checked [where net = "\<lambda>c. Inr r_redirect" and title_arg = "''Breaking Bad''"
        and kind = "''series''", OF 1 _ 3 4 5]
    by (simp add: k g)
  show ?thesis using 1 3 4 5 a b by simp
qed

subsection \<open>C6: a page of suggestions\<close>

text \<open>
  C6 says that on an answer without redirect \<^verbatim>\<open>_search_url_title\<close> returns the slug of
  the first suggestion, in document order, whose kind segment is the requested kind, and
  the comment above the loop says the same (the first valid suggestion). The loop does
  not: on a page whose links are \<^verbatim>\<open>#\<close> and the series page of a show, asked for a
  series, it raises the indexing error of \<^verbatim>\<open>parts[-3]\<close> at the first link and never
  reaches the second, whose slug it returns when that link stands alone.
\<close>

theorem short_href_before_match_raises:
  "raise_for_status r_short_href = Inr ()
   \<and> \<not> is_redirect r_short_href
   \<and> select_suggestions r_short_href = [Some ''#'', Some ''/he/subtitle/series/x/'']
   \<and> split CHR ''/'' ''#'' = [''#'']
   \<and> split CHR ''/'' ''/he/subtitle/series/x/''
       = ['''', ''he'', ''subtitle'', ''series'', ''x'', '''']
   \<and> scan_suggestions ''series'' [Some ''/he/subtitle/series/x/''] = Inr (Some ''x'')
   \<and> fst (search_url_title (\<lambda>c. Inr r_short_href) ''x'' ''series'' p_anon) = Inl IndexError"
  by (simp add: raise_for_status_def is_redirect_def select_suggestions_def r_short_href_def
      search_url_title_def url_title_of_def check_kind_def from_end_def request_def p_anon_def)

subsection \<open>C7: the archive of a download\<close>

text \<open>
  C7: when the download is answered by an archive, \<^verbatim>\<open>download_subtitle\<close> sets the
  content of the subtitle to the repaired bytes of the one entry whose name does not end
  in \<^verbatim>\<open>.txt\<close>, if there is exactly one such name; if there are two or more it raises
  the provider error and leaves the subtitle as it was.
\<close>

theorem download_single_candidate:
  assumes "releases subtitle = v # vs" and "session p = Some s"
    and "net (download_call subtitle v) = Inr r"
    and "raise_for_status r = Inr ()" and "ZipFile r = Inr zf"
  shows "(\<forall>n. candidates zf = [n] \<longrightarrow>
            (\<exists>bytes. filter (\<lambda>entry. \<not> endswith (fst entry) ''.txt'') zf = [(n, bytes)] \<and>
               fst (download_subtitle net fix_line_ending subtitle p) = Inr () \<and>
               fst (snd (download_subtitle net fix_line_ending subtitle p)) =
                 subtitle \<lparr> content := Some (fix_line_ending bytes) \<rparr>))
       \<and> (2 \<le> length (candidates zf) \<longrightarrow>
            fst (download_subtitle net fix_line_ending subtitle p) =
              Inl (ProviderError ''More than one file to unzip'') \<and>
            fst (snd (download_subtitle net fix_line_ending subtitle p)) = subtitle)"
proof (intro conjI allI impI)
  fix n assume "candidates zf = [n]"
  then obtain bytes where "filter (\<lambda>entry. \<not> endswith (fst entry) ''.txt'') zf = [(n, bytes)]"
    and "unzip_single fix_line_ending zf = Inr (fix_line_ending bytes)"
    by (rule unzip_single_one)
  then show "\<exists>bytes. filter (\<lambda>entry. \<not> endswith (fst entry) ''.txt'') zf = [(n, bytes)] \<and>
               fst (download_subtitle net fix_line_ending subtitle p) = Inr () \<and>
               fst (snd (download_subtitle net fix_line_ending subtitle p)) =
                 subtitle \<lparr> content := Some (fix_line_ending bytes) \<rparr>"
    using download_subtitle_unzip [where net = net and fix_line_ending = fix_line_ending, OF assms] by simp
next
  assume "2 \<le> length (candidates zf)"
  then have u: "unzip_single fix_line_ending zf = Inl (ProviderError ''More than one file to unzip'')"
    by (rule unzip_single_many)
  show "fst (download_subtitle net fix_line_ending subtitle p) =
              Inl (ProviderError ''More than one file to unzip'')"
    using download_subtitle_unzip(1) [where net = net and fix_line_ending = fix_line_ending, OF assms] u by simp
  show "fst (snd (download_subtitle net fix_line_ending subtitle p)) = subtitle"
    using download_subtitle_unzip(2) [where net = net and fix_line_ending = fix_line_ending, OF assms] u by simp
qed

theorem download_single_candidate_witness:
  "releases s42 = ''Group1'' # [''Group2'']
   \<and> raise_for_status r_zip_one = Inr ()
   \<and> ZipFile r_zip_one = Inr [(''readme.txt'', ''visit us''), (''episode.srt'', ''1 hello'')]
   \<and> candidates [(''readme.txt'', ''visit us''), (''episode.srt'', ''1 hello'')] = [''episode.srt'']
   \<and> fst (download_subtitle (\<lambda>c. Inr r_zip_one) rev s42 p_anon) = Inr ()
   \<and> fst (snd (download_subtitle (\<lambda>c. Inr r_zip_one) rev s42 p_anon))
       = s42 \<lparr> content := Some (rev ''1 hello'') \<rparr>
   \<and> ZipFile r_zip_two = Inr [(''a.srt'', ''1 hello''), (''b.srt'', ''1 shalom'')]
   \<and> 2 \<le> length (candidates [(''a.srt'', ''1 hello''), (''b.srt'', ''1 shalom'')])
   \<and> fst (download_subtitle (\<lambda>c. Inr r_zip_two) rev s42 p_anon)
       = Inl (ProviderError ''More than one file to unzip'')
   \<and> fst (snd (download_subtitle (\<lambda>c. Inr r_zip_two) rev s42 p_anon)) = s42"
proof -
  let ?one = "[(''readme.txt'', ''visit us''), (''episode.srt'', ''1 hello'')]"
  let ?two = "[(''a.srt'', ''1 hello''), (''b.srt'', ''1 shalom'')]"
  have s1: "raise_for_status r_zip_one = Inr ()" and z1: "ZipFile r_zip_one = Inr ?one"
    by (simp_all add: raise_for_status_def ZipFile_def r_zip_one_def)
  have s2: "raise_for_status r_zip_two = Inr ()" and z2: "ZipFile r_zip_two = Inr ?two"
    by (simp_all add: raise_for_status_def ZipFile_def r_zip_two_def)
  have c1: "candidates ?one = [''episode.srt'']"
    by (simp add: candidates_def namelist_def endswith_def)
  have c2: "2 \<le> length (candidates ?two)"
    by (simp add: candidates_def namelist_def endswith_def)
  have f1: "filter (\<lambda>entry. \<not> endswith (fst entry) ''.txt'') ?one = [(''episode.srt'', ''1 hello'')]"
    by (simp add: endswith_def)
  have a: "fst (download_subtitle (\<lambda>c. Inr r_zip_one) rev s42 p_anon) = Inr ()
         \<and> fst (snd (download_subtitle (\<lambda>c. Inr r_zip_one) rev s42 p_anon))
             = s42 \<lparr> content := Some (rev ''1 hello'') \<rparr>"
    using download_single_candidate [where net = "\<lambda>c. Inr r_zip_one" and fix_line_ending = rev,
        OF s42_releases p_anon_session _ s1 z1] c1 f1
    by simp
  have b: "fst (download_subtitle (\<lambda>c. Inr r_zip_two) rev s42 p_anon)
             = Inl (ProviderError ''More than one file to unzip'')
         \<and> fst (snd (download_subtitle (\<lambda>c. Inr r_zip_two) rev s42 p_anon)) = s42"
    using download_single_candidate [where net = "\<lambda>c. Inr r_zip_two" and fix_line_ending = rev,
        OF s42_releases p_anon_session _ s2 z2] c2
    by simp
  show ?thesis using s42_releases s1 z1 c1 a z2 c2 b by simp
qed

subsection \<open>C9: an archive of text files only\<close>

text \<open>
  C9: when every name in the archive ends in \<^verbatim>\<open>.txt\<close>, \<^verbatim>\<open>download_subtitle\<close> fails
  with the indexing error of reading the first element of an empty list, not with the
  provider error for more than one file, and leaves the subtitle as it was.
\<close>

theorem download_no_candidate:
  assumes "releases subtitle = v # vs" and "session p = Some s"
    and "net (download_call subtitle v) = Inr r"
    and "raise_for_status r = Inr ()" and "ZipFile r = Inr zf"
    and "\<forall>n\<in>set (namelist zf). endswith n ''.txt''"
  shows "fst (download_subtitle net fix_line_ending subtitle p) = Inl IndexError
       \<and> fst (download_subtitle net fix_line_ending subtitle p)
           \<noteq> Inl (ProviderError ''More than one file to unzip'')
       \<and> fst (snd (download_subtitle net fix_line_ending subtitle p)) = subtitle"
proof -
  have "candidates zf = []" using assms(6) by (simp add: candidates_def)
  then have u: "unzip_single fix_line_ending zf = Inl IndexError" by (rule unzip_single_none)
  show ?thesis
    using download_subtitle_unzip [where net = net and fix_line_ending = fix_line_ending, OF assms(1-5)] u by simp
qed

theorem download_no_candidate_witness:
  "releases s42 = ''Group1'' # [''Group2'']
   \<and> raise_for_status r_zip_txt = Inr ()
   \<and> ZipFile r_zip_txt = Inr [(''readme.txt'', ''visit us''), (''notes.txt'', ''nothing'')]
   \<and> namelist [(''readme.txt'', ''visit us''), (''notes.txt'', ''nothing'')]
       = [''readme.txt'', ''notes.txt'']
   \<and> endswith ''readme.txt'' ''.txt'' \<and> endswith ''notes.txt'' ''.txt''
   \<and> fst (download_subtitle (\<lambda>c. Inr r_zip_txt) rev s42 p_anon) = Inl IndexError
   \<and> fst (snd (download_subtitle (\<lambda>c. Inr r_zip_txt) rev s42 p_anon)) = s42"
proof -
  let ?zf = "[(''readme.txt'', ''visit us''), (''notes.txt'', ''nothing'')]"
  have s: "raise_for_status r_zip_txt = Inr ()" and z: "ZipFile r_zip_txt = Inr ?zf"
    by (simp_all add: raise_for_status_def ZipFile_def r_zip_txt_def)
  have t: "\<forall>n\<in>set (namelist ?zf). endswith n ''.txt''"
    by (simp add: namelist_def endswith_def)
  have "fst (download_subtitle (\<lambda>c. Inr r_zip_txt) rev s42 p_anon) = Inl IndexError
      \<and> fst (download_subtitle (\<lambda>c. Inr r_zip_txt) rev s42 p_anon)
           \<noteq> Inl (ProviderError ''More than one file to unzip'')
      \<and> fst (snd (download_subtitle (\<lambda>c. Inr r_zip_txt) rev s42 p_anon)) = s42"
    using download_no_candidate [where net = "\<lambda>c. Inr r_zip_txt" and fix_line_ending = rev,
        OF s42_releases p_anon_session _ s z t]
    by simp
  then show ?thesis using s42_releases s z t by (simp add: namelist_def)
qed

subsection \<open>C4: the arguments of a query\<close>

text \<open>
  C4, as stated, fails for the combinations it calls inconsistent: with a full episode
  triple and a title, \<^verbatim>\<open>query\<close> runs the episode query, and with a partial triple and
  a title it runs the movie query; both make their network calls and neither raises the
  error for missing parameters.
\<close>

theorem query_both_forms_counterexample:
  "fst (query net_site [''he''] (Some ''Breaking Bad'') (Some 1) (Some 1) (Some ''Pilot'') p_anon)
     = Inr [s42 \<lparr> title := Some ''Pilot'' \<rparr>]
   \<and> calls_made (snd (query net_site [''he''] (Some ''Breaking Bad'') (Some 1) (Some 1) (Some ''Pilot'') p_anon))
     = [GET ''http://subscenter.cinemast.com/he/subtitle/search/'' [(''q'', ''Breaking Bad'')] [],
        GET ''http://subscenter.cinemast.com/he/cinemast/data/series/sb/breaking-bad/1/1/'' [] []]
   \<and> fst (query net_site [''he''] (Some ''Breaking Bad'') None (Some 1) (Some ''Pilot'') p_anon)
     = Inl (HTTPError 404)
   \<and> calls_made (snd (query net_site [''he''] (Some ''Breaking Bad'') None (Some 1) (Some ''Pilot'') p_anon))
     = [GET ''http://subscenter.cinemast.com/he/subtitle/search/'' [(''q'', ''Pilot'')] [],
        GET ''http://subscenter.cinemast.com/he/cinemast/data/movie/sb/None/'' [] []]"
  using query_both_forms query_both_forms_calls query_partial_triple query_partial_triple_calls
  by simp

text \<open>
  C4, amended: \<^verbatim>\<open>query\<close> raises the error for missing parameters, with no call made
  and the provider unchanged, exactly when neither the episode triple (series, season
  and episode all true in Python's sense) nor the title (true in Python's sense) is
  supplied.
\<close>

theorem query_value_error_iff:
  "query net known series_arg season_arg episode_arg title_arg p =
     (Inl (ValueError ''One or more parameters are missing''), p)
   \<longleftrightarrow> episode_form series_arg season_arg episode_arg = None \<and> movie_form title_arg = None"
proof
  assume "episode_form series_arg season_arg episode_arg = None \<and> movie_form title_arg = None"
  then show "query net known series_arg season_arg episode_arg title_arg p =
     (Inl (ValueError ''One or more parameters are missing''), p)"
    by (simp add: query_def query_urls_def)
next
  assume q: "query net known series_arg season_arg episode_arg title_arg p =
     (Inl (ValueError ''One or more parameters are missing''), p)"
  show "episode_form series_arg season_arg episode_arg = None \<and> movie_form title_arg = None"
  proof (rule ccontr)
    assume "\<not> (episode_form series_arg season_arg episode_arg = None \<and> movie_form title_arg = None)"
    then have form: "episode_form series_arg season_arg episode_arg \<noteq> None \<or> movie_form title_arg \<noteq> None"
      by simp
    show False
    proof (cases "session p")
      case None
      from query_no_session [OF form None, of net known] q show False by simp
    next
      case (Some s)
      then have "session p \<noteq> None" by simp
      from query_makes_call [OF form this, of net known] q show False by simp
    qed
  qed
qed

theorem query_value_error_iff_witness:
  "episode_form (Some ''Breaking Bad'') None (Some 1) = None \<and> movie_form None = None
   \<and> query net_site [''he''] (Some ''Breaking Bad'') None (Some 1) None p_anon
       = (Inl (ValueError ''One or more parameters are missing''), p_anon)
   \<and> calls_made p_anon = []"
  using query_value_error_iff [of net_site "[''he'']" "Some ''Breaking Bad''" None "Some 1" None p_anon]
  by (simp add: calls_made_def p_anon_def)

subsection \<open>C8: the release of the session\<close>

text \<open>
  C8, as stated, fails: when the login is refused, \<^verbatim>\<open>initialize\<close> raises the
  authentication error and the session it created is still open.
\<close>

theorem login_failure_counterexample:
  "fst (initialize (\<lambda>c. Inr r_login_page) ''2.0'' p_user) = Inl (AuthenticationError ''user'')
   \<and> session_open (snd (initialize (\<lambda>c. Inr r_login_page) ''2.0'' p_user))"
  by (simp add: initialize_refused session_open_def)

text \<open>
  C8, amended: \<^verbatim>\<open>initialize\<close> leaves the session open on every exit path, also
  when it raises; the session is released by \<^verbatim>\<open>terminate\<close>, which closes it whenever
  its logout step succeeds, in particular whenever the provider is not logged in, as
  after a refused login.
\<close>

theorem session_released_by_terminate:
  "session_open (snd (initialize net short_version p0))
   \<and> (session_open p \<and> fst (logout net p) = Inr () \<longrightarrow>
        fst (terminate net p) = Inr () \<and> \<not> session_open (snd (terminate net p)))
   \<and> (session_open p \<and> \<not> logged_in p \<longrightarrow>
        fst (terminate net p) = Inr () \<and> \<not> session_open (snd (terminate net p)))"
proof (intro conjI impI)
  show "session_open (snd (initialize net short_version p0))" by (rule initialize_session_open)
next
  assume h: "session_open p \<and> fst (logout net p) = Inr ()"
  obtain p1 where l: "logout net p = (Inr (), p1)" using h by (cases "logout net p") auto
  have "session_open p1" using logout_session_open [of net p] h l by simp
  then obtain s where s: "session p1 = Some s" by (auto simp: session_open_def split: option.splits)
  show "fst (terminate net p) = Inr ()" using l s by (simp add: terminate_def)
  show "\<not> session_open (snd (terminate net p))" using l s by (simp add: terminate_def session_open_def)
next
  assume h: "session_open p \<and> \<not> logged_in p"
  then have l: "logout net p = (Inr (), p)" by (simp add: logout_def)
  from h obtain s where s: "session p = Some s" by (auto simp: session_open_def split: option.splits)
  show "fst (terminate net p) = Inr ()" using l s by (simp add: terminate_def)
  show "\<not> session_open (snd (terminate net p))" using l s by (simp add: terminate_def session_open_def)
qed

theorem session_released_by_terminate_witness:
  "session_open (snd (initialize (\<lambda>c. Inr r_login_page) ''2.0'' p_user))
   \<and> \<not> logged_in (snd (initialize (\<lambda>c. Inr r_login_page) ''2.0'' p_user))
   \<and> fst (logout (\<lambda>c. Inr r_login_page) (snd (initialize (\<lambda>c. Inr r_login_page) ''2.0'' p_user))) = Inr ()
   \<and> fst (terminate (\<lambda>c. Inr r_login_page) (snd (initialize (\<lambda>c. Inr r_login_page) ''2.0'' p_user)))
       = Inr ()
   \<and> \<not> session_open (snd (terminate (\<lambda>c. Inr r_login_page)
                              (snd (initialize (\<lambda>c. Inr r_login_page) ''2.0'' p_user))))"
proof -
  let ?net = "\<lambda>c. Inr r_login_page :: error + response"
  let ?p = "snd (initialize ?net ''2.0'' p_user)"
  have 1: "\<not> logged_in ?p" by (simp add: initialize_refused)
  then have 2: "fst (logout ?net ?p) = Inr ()" by (simp add: logout_def)
  from session_released_by_terminate [of ?net "''2.0''" p_user ?p]
  show ?thesis using 1 2 by blast
qed

end
